theory Spec2Isabelle
  imports Complex_Main
begin

section \<open>Dense matrices\<close>

text \<open>
  An Eigen matrix holds its dimensions and its coefficients in column-major order;
  \<open>y(n)\<close> with one index reads the coefficient at linear position \<open>n\<close> and
  \<open>y.size()\<close> is \<open>rows * cols\<close>.
\<close>

record 'a matrix =
  rows :: nat
  cols :: nat
  coeffs :: "'a list"

definition msize :: "'a matrix \<Rightarrow> nat" where
  "msize y = rows y * cols y"

definition coeff1 :: "'a matrix \<Rightarrow> nat \<Rightarrow> 'a" where
  "coeff1 y n = coeffs y ! n"

text \<open>
  A matrix is well formed when it holds \<open>rows * cols\<close> coefficients, as every Eigen
  matrix does.
\<close>

definition wf_matrix :: "'a matrix \<Rightarrow> bool" where
  "wf_matrix m \<longleftrightarrow> length (coeffs m) = rows m * cols m"

section \<open>The finite check of the matrix error helpers\<close>

text \<open>
  A double is a real number, an infinity or a NaN. Only the finite check distinguishes
  them; the numerical code below is modelled in exact real arithmetic.
\<close>

datatype double = Finite real | PInf | NInf | NaN

fun isfinite :: "double \<Rightarrow> bool" where
  "isfinite (Finite x) = True"
| "isfinite PInf = False"
| "isfinite NInf = False"
| "isfinite NaN = False"

definition allFinite :: "double matrix \<Rightarrow> bool" where
  "allFinite y = list_all (\<lambda>n. isfinite (coeff1 y n)) [0..<msize y]"

text \<open>
  The helper \<open>check\<close> of \<open>is_2F1_converges.hpp\<close> (the part headed
  \<open>STAN_MATH_PRIM_MAT_ERR_IS_FINITE_HPP\<close>). The body of its loop returns in both
  branches, so the increment is never reached and only position \<open>n = 0\<close> is ever
  read. When the matrix is all finite, and when the loop is not entered, control reaches
  the end of the function without a return statement: the result is \<open>None\<close>.
\<close>

definition check_loop :: "double matrix \<Rightarrow> nat \<Rightarrow> bool option" where
  "check_loop y n =
     (if n < msize y
      then (if \<not> isfinite (coeff1 y n) then Some False else Some True)
      else None)"

definition check :: "double matrix \<Rightarrow> bool option" where
  "check y = (if \<not> allFinite y then check_loop y 0 else None)"

section \<open>Errors\<close>

text \<open>
  The argument checks throw \<open>std::domain_error\<close> or \<open>std::invalid_argument\<close>.
  An error value keeps the name of the function, the name of the argument and, for a size
  error, the sizes the message reports.
\<close>

datatype error =
    Domain_error string string
  | Invalid_argument string string "nat list"

section \<open>The autodiff stack\<close>

text \<open>
  A \<open>vari\<close> holds a value and an adjoint (the members \<open>val_\<close> and \<open>adj_\<close>, here
  \<open>val\<close> and \<open>adj\<close>); its class decides what \<open>chain()\<close> does. The classes of \<open>squared_distance.hpp\<close> are the constructors of \<open>chainable\<close>, each
  with the fields the class declares: operand pointers are addresses on the stack, constant
  operands are plain numbers. \<open>Leaf\<close> is an independent variable and
  \<open>Operands_and_partials\<close> the node of a function that stores its partial derivatives.
\<close>

type_synonym addr = nat

datatype chainable =
    Leaf
  | Scal_squared_distance_vv addr addr
  | Scal_squared_distance_vd addr real
  | Scal_squared_distance_dv real addr
  | Squared_distance_vv "addr list" "addr list" nat
  | Squared_distance_vd "addr list" "real list" nat
  | Operands_and_partials "addr list" "real list"

record vari =
  val :: real
  adj :: real
  kind :: chainable

type_synonym stack = "vari list"

text \<open>
  Modelled from the spec: the base class \<open>vari\<close> and \<open>ChainableStack\<close> are not in the
  sources read here. A node is created with its value and adjoint 0 and is appended to the
  tape, which is in creation order; a \<open>var\<close> is the address of its node.
\<close>

definition new_vari :: "real \<Rightarrow> chainable \<Rightarrow> stack \<Rightarrow> addr \<times> stack" where
  "new_vari v k st = (length st, st @ [\<lparr>val = v, adj = 0, kind = k\<rparr>])"

text \<open>\<open>p->adj_ += d\<close> and \<open>p->adj_ -= d\<close>.\<close>

definition adj_add :: "stack \<Rightarrow> addr \<Rightarrow> real \<Rightarrow> stack" where
  "adj_add st p d = st[p := (st ! p)\<lparr>adj := adj (st ! p) + d\<rparr>]"

definition adj_sub :: "stack \<Rightarrow> addr \<Rightarrow> real \<Rightarrow> stack" where
  "adj_sub st p d = st[p := (st ! p)\<lparr>adj := adj (st ! p) - d\<rparr>]"

section \<open>Squared distance\<close>

text \<open>
  Modelled from the spec: the scalar \<open>squared_distance(double, double)\<close> of
  \<open>prim/fun/squared_distance.hpp\<close> is not in the sources read here; the spec gives its
  value as \<open>(a - b)\<^sup>2\<close>.
\<close>

definition squared_distance_dd :: "real \<Rightarrow> real \<Rightarrow> real" where
  "squared_distance_dd a b = (a - b)\<^sup>2"

subsection \<open>Scalar nodes\<close>

definition scal_squared_distance_vv_vari :: "addr \<Rightarrow> addr \<Rightarrow> stack \<Rightarrow> addr \<times> stack" where
  "scal_squared_distance_vv_vari avi bvi st =
     new_vari (squared_distance_dd (val (st ! avi)) (val (st ! bvi)))
       (Scal_squared_distance_vv avi bvi) st"

definition scal_squared_distance_vv_chain :: "addr \<Rightarrow> addr \<Rightarrow> addr \<Rightarrow> stack \<Rightarrow> stack" where
  "scal_squared_distance_vv_chain self avi bvi st =
     (let diff = val (st ! avi) - val (st ! bvi);
          st1 = adj_add st avi (adj (st ! self) * 2 * diff)
      in adj_sub st1 bvi (adj (st1 ! self) * 2 * diff))"

definition scal_squared_distance_vd_vari :: "addr \<Rightarrow> real \<Rightarrow> stack \<Rightarrow> addr \<times> stack" where
  "scal_squared_distance_vd_vari avi b st =
     new_vari (squared_distance_dd (val (st ! avi)) b) (Scal_squared_distance_vd avi b) st"

definition scal_squared_distance_vd_chain :: "addr \<Rightarrow> addr \<Rightarrow> real \<Rightarrow> stack \<Rightarrow> stack" where
  "scal_squared_distance_vd_chain self avi bd st =
     adj_add st avi (adj (st ! self) * 2 * (val (st ! avi) - bd))"

definition scal_squared_distance_dv_vari :: "real \<Rightarrow> addr \<Rightarrow> stack \<Rightarrow> addr \<times> stack" where
  "scal_squared_distance_dv_vari a bvi st =
     new_vari (squared_distance_dd a (val (st ! bvi))) (Scal_squared_distance_dv a bvi) st"

definition scal_squared_distance_dv_chain :: "addr \<Rightarrow> real \<Rightarrow> addr \<Rightarrow> stack \<Rightarrow> stack" where
  "scal_squared_distance_dv_chain self ad bvi st =
     adj_sub st bvi (adj (st ! self) * 2 * (ad - val (st ! bvi)))"

text \<open>The three scalar overloads of \<open>squared_distance\<close>.\<close>

definition squared_distance_v_v :: "addr \<Rightarrow> addr \<Rightarrow> stack \<Rightarrow> addr \<times> stack" where
  "squared_distance_v_v a b st = scal_squared_distance_vv_vari a b st"

definition squared_distance_v_d :: "addr \<Rightarrow> real \<Rightarrow> stack \<Rightarrow> addr \<times> stack" where
  "squared_distance_v_d a b st = scal_squared_distance_vd_vari a b st"

definition squared_distance_d_v :: "real \<Rightarrow> addr \<Rightarrow> stack \<Rightarrow> addr \<times> stack" where
  "squared_distance_d_v a b st = scal_squared_distance_dv_vari a b st"

subsection \<open>Vector nodes\<close>

text \<open>
  \<open>var_squared_distance\<close> sums the squared differences over \<open>i < v1.size()\<close>; the
  constructor copies \<open>length_ = v1.size()\<close> operand pointers (or doubles) of each
  argument into arena arrays.
\<close>

definition var_squared_distance_vv :: "stack \<Rightarrow> addr matrix \<Rightarrow> addr matrix \<Rightarrow> real" where
  "var_squared_distance_vv st v1 v2 =
     fold (\<lambda>i result.
             let diff = val (st ! coeff1 v1 i) - val (st ! coeff1 v2 i)
             in result + diff * diff)
       [0..<msize v1] 0"

definition squared_distance_vv_vari :: "addr matrix \<Rightarrow> addr matrix \<Rightarrow> stack \<Rightarrow> addr \<times> stack" where
  "squared_distance_vv_vari v1 v2 st =
     (let len = msize v1
      in new_vari (var_squared_distance_vv st v1 v2)
           (Squared_distance_vv (map (coeff1 v1) [0..<len]) (map (coeff1 v2) [0..<len])
              len) st)"

definition squared_distance_vv_chain ::
  "addr \<Rightarrow> addr list \<Rightarrow> addr list \<Rightarrow> nat \<Rightarrow> stack \<Rightarrow> stack" where
  "squared_distance_vv_chain self v1 v2 len st =
     fold (\<lambda>i s.
             let di = 2 * adj (s ! self) * (val (s ! (v1 ! i)) - val (s ! (v2 ! i)))
             in adj_sub (adj_add s (v1 ! i) di) (v2 ! i) di)
       [0..<len] st"

definition var_squared_distance_vd :: "stack \<Rightarrow> addr matrix \<Rightarrow> real matrix \<Rightarrow> real" where
  "var_squared_distance_vd st v1 v2 =
     fold (\<lambda>i result.
             let diff = val (st ! coeff1 v1 i) - coeff1 v2 i
             in result + diff * diff)
       [0..<msize v1] 0"

definition squared_distance_vd_vari :: "addr matrix \<Rightarrow> real matrix \<Rightarrow> stack \<Rightarrow> addr \<times> stack" where
  "squared_distance_vd_vari v1 v2 st =
     (let len = msize v1
      in new_vari (var_squared_distance_vd st v1 v2)
           (Squared_distance_vd (map (coeff1 v1) [0..<len]) (map (coeff1 v2) [0..<len])
              len) st)"

definition squared_distance_vd_chain ::
  "addr \<Rightarrow> addr list \<Rightarrow> real list \<Rightarrow> nat \<Rightarrow> stack \<Rightarrow> stack" where
  "squared_distance_vd_chain self v1 v2 len st =
     fold (\<lambda>i s. adj_add s (v1 ! i) (2 * adj (s ! self) * (val (s ! (v1 ! i)) - v2 ! i)))
       [0..<len] st"

text \<open>
  Modelled from the spec: the node that \<open>operands_and_partials::build\<close> creates is not
  in the sources read here. It holds the differentiable operands and one partial derivative
  for each; its \<open>chain()\<close> adds its adjoint times the partial to each operand's adjoint.
\<close>

definition operands_and_partials_chain ::
  "addr \<Rightarrow> addr list \<Rightarrow> real list \<Rightarrow> stack \<Rightarrow> stack" where
  "operands_and_partials_chain self operands partials st =
     fold (\<lambda>i s. adj_add s (operands ! i) (adj (s ! self) * partials ! i))
       [0..<length operands] st"

text \<open>\<open>chain()\<close> is virtual: the class of the node selects the body.\<close>

definition chain :: "addr \<Rightarrow> stack \<Rightarrow> stack" where
  "chain self st =
     (case kind (st ! self) of
        Leaf \<Rightarrow> st
      | Scal_squared_distance_vv avi bvi \<Rightarrow> scal_squared_distance_vv_chain self avi bvi st
      | Scal_squared_distance_vd avi bd \<Rightarrow> scal_squared_distance_vd_chain self avi bd st
      | Scal_squared_distance_dv ad bvi \<Rightarrow> scal_squared_distance_dv_chain self ad bvi st
      | Squared_distance_vv v1 v2 n \<Rightarrow> squared_distance_vv_chain self v1 v2 n st
      | Squared_distance_vd v1 v2 n \<Rightarrow> squared_distance_vd_chain self v1 v2 n st
      | Operands_and_partials operands partials \<Rightarrow>
          operands_and_partials_chain self operands partials st)"

text \<open>
  Modelled from the spec: \<open>check_vector\<close> and \<open>check_matching_sizes\<close> are not in the
  sources read here. A vector has one row or one column; two containers match when their
  sizes are equal; both failures are \<open>std::invalid_argument\<close>.
\<close>

definition check_vector :: "string \<Rightarrow> string \<Rightarrow> 'a matrix \<Rightarrow> error + unit" where
  "check_vector function name x =
     (if rows x = 1 \<or> cols x = 1 then Inr ()
      else Inl (Invalid_argument function name [rows x, cols x]))"

definition check_matching_sizes ::
  "string \<Rightarrow> string \<Rightarrow> 'a matrix \<Rightarrow> string \<Rightarrow> 'b matrix \<Rightarrow> error + unit" where
  "check_matching_sizes function name1 y1 name2 y2 =
     (if msize y1 = msize y2 then Inr ()
      else Inl (Invalid_argument function name1 [msize y1, msize y2]))"

text \<open>
  The three vector overloads. A failed check throws before the node is created, so the
  stack is returned as it was.
\<close>

definition squared_distance_mv_mv ::
  "addr matrix \<Rightarrow> addr matrix \<Rightarrow> stack \<Rightarrow> (error + addr) \<times> stack" where
  "squared_distance_mv_mv v1 v2 st =
     (case check_vector ''squared_distance'' ''v1'' v1 of Inl e \<Rightarrow> (Inl e, st) | Inr _ \<Rightarrow>
      case check_vector ''squared_distance'' ''v2'' v2 of Inl e \<Rightarrow> (Inl e, st) | Inr _ \<Rightarrow>
      case check_matching_sizes ''squared_distance'' ''v1'' v1 ''v2'' v2 of
        Inl e \<Rightarrow> (Inl e, st)
      | Inr _ \<Rightarrow> (case squared_distance_vv_vari v1 v2 st of (p, st') \<Rightarrow> (Inr p, st')))"

definition squared_distance_mv_md ::
  "addr matrix \<Rightarrow> real matrix \<Rightarrow> stack \<Rightarrow> (error + addr) \<times> stack" where
  "squared_distance_mv_md v1 v2 st =
     (case check_vector ''squared_distance'' ''v1'' v1 of Inl e \<Rightarrow> (Inl e, st) | Inr _ \<Rightarrow>
      case check_vector ''squared_distance'' ''v2'' v2 of Inl e \<Rightarrow> (Inl e, st) | Inr _ \<Rightarrow>
      case check_matching_sizes ''squared_distance'' ''v1'' v1 ''v2'' v2 of
        Inl e \<Rightarrow> (Inl e, st)
      | Inr _ \<Rightarrow> (case squared_distance_vd_vari v1 v2 st of (p, st') \<Rightarrow> (Inr p, st')))"

definition squared_distance_md_mv ::
  "real matrix \<Rightarrow> addr matrix \<Rightarrow> stack \<Rightarrow> (error + addr) \<times> stack" where
  "squared_distance_md_mv v1 v2 st =
     (case check_vector ''squared_distance'' ''v1'' v1 of Inl e \<Rightarrow> (Inl e, st) | Inr _ \<Rightarrow>
      case check_vector ''squared_distance'' ''v2'' v2 of Inl e \<Rightarrow> (Inl e, st) | Inr _ \<Rightarrow>
      case check_matching_sizes ''squared_distance'' ''v1'' v1 ''v2'' v2 of
        Inl e \<Rightarrow> (Inl e, st)
      | Inr _ \<Rightarrow> (case squared_distance_vd_vari v2 v1 st of (p, st') \<Rightarrow> (Inr p, st')))"

section \<open>The ordered constraint operator\<close>

text \<open>
  \<open>ordered_constrain_op\<close> keeps the size \<open>N_\<close> and the array \<open>exp_x_\<close> of the
  forward pass for the adjoint pass. Fresh Eigen vectors and arena arrays are written
  before they are read; they start as zeros here.
\<close>

record ordered_constrain_op =
  N :: nat
  exp_x :: "real list"

text \<open>
  \<open>operator()\<close>: the loop runs \<open>n = 1, \<dots>, N_ - 1\<close> on the pair of arrays
  \<open>(y, exp_x_)\<close>. It returns the constrained vector and the operator's state.
\<close>

definition ordered_constrain_step ::
  "real list \<Rightarrow> nat \<Rightarrow> real list \<times> real list \<Rightarrow> real list \<times> real list" where
  "ordered_constrain_step x n s =
     (case s of (y, ex) \<Rightarrow>
        let ex' = ex[n - 1 := exp (x ! n)];
            y' = y[n := y ! (n - 1) + ex' ! (n - 1)]
        in (y', ex'))"

definition ordered_constrain_apply :: "real list \<Rightarrow> real list \<times> ordered_constrain_op" where
  "ordered_constrain_apply x =
     (let n = length x;
          y = replicate n 0
      in if n = 0 then (y, \<lparr>N = n, exp_x = []\<rparr>)
         else
           let ex = replicate (n - 1) 0;
               y0 = y[0 := x ! 0];
               (y', ex') = fold (ordered_constrain_step x) [1..<n] (y0, ex)
           in (y', \<lparr>N = n, exp_x = ex'\<rparr>))"

text \<open>
  \<open>multiply_adjoint_jacobian\<close>: the loop runs \<open>n = N_ - 1\<close> down to \<open>1\<close> on the pair
  \<open>(rolling_adjoint_sum, adj_times_jac)\<close>.
\<close>

definition multiply_adjoint_jacobian_step ::
  "ordered_constrain_op \<Rightarrow> real list \<Rightarrow> nat \<Rightarrow> real \<times> real list \<Rightarrow> real \<times> real list" where
  "multiply_adjoint_jacobian_step op adjv n s =
     (case s of (rolling_adjoint_sum, adj_times_jac) \<Rightarrow>
        let rolling_adjoint_sum' = rolling_adjoint_sum + adjv ! n
        in (rolling_adjoint_sum',
            adj_times_jac[n := exp_x op ! (n - 1) * rolling_adjoint_sum']))"

definition multiply_adjoint_jacobian :: "ordered_constrain_op \<Rightarrow> real list \<Rightarrow> real list" where
  "multiply_adjoint_jacobian op adjv =
     (let adj_times_jac = replicate (N op) 0
      in if N op > 0
         then
           let (rolling_adjoint_sum, adj_times_jac') =
                 fold (multiply_adjoint_jacobian_step op adjv) (rev [1..<N op]) (0, adj_times_jac)
           in adj_times_jac'[0 := rolling_adjoint_sum + adjv ! 0]
         else adj_times_jac)"

text \<open>
  The Jacobian of the forward map \<open>y\<^sub>k = x\<^sub>0 + \<Sum>\<^sub>1\<^sub>\<le>\<^sub>j\<^sub>\<le>\<^sub>k exp x\<^sub>j\<close>: the entry in row \<open>k\<close> and
  column \<open>n\<close> is \<open>\<partial>y\<^sub>k/\<partial>x\<^sub>n\<close>.
\<close>

definition ordered_constrain_jacobian :: "real list \<Rightarrow> nat \<Rightarrow> nat \<Rightarrow> real" where
  "ordered_constrain_jacobian x k n =
     (if n = 0 then 1 else if n \<le> k then exp (x ! n) else 0)"

section \<open>Dense linear algebra on doubles\<close>

text \<open>
  The Eigen operations the hidden Markov model code uses. A \<open>VectorXd\<close> is the list of
  its coefficients. \<open>coeff m i j\<close> is \<open>m(i, j)\<close>; \<open>col m j\<close> is \<open>m.col(j)\<close> and
  \<open>set_col m j v\<close> is the assignment \<open>m.col(j) = v\<close>. Doubles are real numbers here:
  rounding, overflow and NaN are outside this model.
\<close>

definition coeff :: "'a matrix \<Rightarrow> nat \<Rightarrow> nat \<Rightarrow> 'a" where
  "coeff m i j = coeffs m ! (j * rows m + i)"

definition col :: "'a matrix \<Rightarrow> nat \<Rightarrow> 'a list" where
  "col m j = take (rows m) (drop (j * rows m) (coeffs m))"

definition set_col :: "'a matrix \<Rightarrow> nat \<Rightarrow> 'a list \<Rightarrow> 'a matrix" where
  "set_col m j v =
     m\<lparr>coeffs := take (j * rows m) (coeffs m) @ v @ drop (Suc j * rows m) (coeffs m)\<rparr>"

definition row :: "'a matrix \<Rightarrow> nat \<Rightarrow> 'a list" where
  "row m i = map (\<lambda>j. coeff m i j) [0..<cols m]"

definition transpose_mat :: "'a matrix \<Rightarrow> 'a matrix" where
  "transpose_mat m =
     \<lparr>rows = cols m, cols = rows m,
      coeffs = concat (map (\<lambda>i. map (\<lambda>j. coeff m i j) [0..<cols m]) [0..<rows m])\<rparr>"

definition Zero :: "nat \<Rightarrow> nat \<Rightarrow> real matrix" where
  "Zero r c = \<lparr>rows = r, cols = c, coeffs = replicate (r * c) 0\<rparr>"

definition Ones :: "nat \<Rightarrow> real list" where
  "Ones n = replicate n 1"

definition cwiseProduct :: "real list \<Rightarrow> real list \<Rightarrow> real list" where
  "cwiseProduct a b = map2 (*) a b"

text \<open>\<open>v.maxCoeff()\<close>, of a vector that is not empty.\<close>

definition maxCoeff :: "real list \<Rightarrow> real" where
  "maxCoeff v = Max (set v)"

definition vec_div :: "real list \<Rightarrow> real \<Rightarrow> real list" where
  "vec_div v c = map (\<lambda>x. x / c) v"

definition vec_scale :: "real \<Rightarrow> real list \<Rightarrow> real list" where
  "vec_scale c v = map (\<lambda>x. c * x) v"

text \<open>\<open>g * v\<close> and \<open>g.transpose() * v\<close> for a matrix \<open>g\<close> and a vector \<open>v\<close>.\<close>

definition times_vec :: "real matrix \<Rightarrow> real list \<Rightarrow> real list" where
  "times_vec g v = map (\<lambda>i. \<Sum>j<cols g. coeff g i j * v ! j) [0..<rows g]"

definition transpose_times_vec :: "real matrix \<Rightarrow> real list \<Rightarrow> real list" where
  "transpose_times_vec g v = map (\<lambda>j. \<Sum>i<rows g. coeff g i j * v ! i) [0..<cols g]"

text \<open>\<open>(u * w.transpose()).transpose()\<close>: the entry in row \<open>i\<close>, column \<open>j\<close> is \<open>u\<^sub>j w\<^sub>i\<close>.\<close>

definition outer_transposed :: "real list \<Rightarrow> real list \<Rightarrow> real matrix" where
  "outer_transposed u w =
     \<lparr>rows = length w, cols = length u,
      coeffs = concat (map (\<lambda>j. map (\<lambda>i. u ! j * w ! i) [0..<length w]) [0..<length u])\<rparr>"

definition mat_add :: "real matrix \<Rightarrow> real matrix \<Rightarrow> real matrix" where
  "mat_add a b = a\<lparr>coeffs := map2 (+) (coeffs a) (coeffs b)\<rparr>"

definition mat_div :: "real matrix \<Rightarrow> real \<Rightarrow> real matrix" where
  "mat_div a c = a\<lparr>coeffs := map (\<lambda>x. x / c) (coeffs a)\<rparr>"

definition mat_cwiseProduct :: "real matrix \<Rightarrow> real matrix \<Rightarrow> real matrix" where
  "mat_cwiseProduct a b = a\<lparr>coeffs := map2 (*) (coeffs a) (coeffs b)\<rparr>"

definition mat_exp :: "real matrix \<Rightarrow> real matrix" where
  "mat_exp a = a\<lparr>coeffs := map exp (coeffs a)\<rparr>"

section \<open>The forward pass of the hidden Markov model\<close>

text \<open>
  \<open>internal::hmm_marginal_lpdf\<close>. The arguments \<open>alphas\<close> and \<open>alpha_log_norms\<close> are
  passed by reference and written in place; \<open>omegas\<close> is assigned. The function returns
  the log marginal density together with the three updated buffers. The loop runs
  \<open>n = 0, \<dots>, n_transitions - 1\<close> on the pair \<open>(alphas, alpha_log_norms)\<close>.

  \<open>n_transitions\<close> is the \<open>int\<close> \<open>log_omegas.cols() - 1\<close>. With no column it is \<open>-1\<close> and
  the first statement after it reads column 0 of a matrix without columns, which Eigen does
  not define: the result is \<open>None\<close>.
\<close>

definition hmm_forward_step ::
  "real matrix \<Rightarrow> real matrix \<Rightarrow> nat \<Rightarrow> real matrix \<times> real list \<Rightarrow> real matrix \<times> real list" where
  "hmm_forward_step Gamma omegas n s =
     (case s of (alphas, alpha_log_norms) \<Rightarrow>
        let alphas1 = set_col alphas (n + 1)
                        (cwiseProduct (col omegas (n + 1))
                           (transpose_times_vec Gamma (col alphas n)));
            norm = maxCoeff (col alphas1 (n + 1));
            alphas2 = set_col alphas1 (n + 1) (vec_div (col alphas1 (n + 1)) norm);
            alpha_log_norms1 = alpha_log_norms[n + 1 := ln norm + alpha_log_norms ! n]
        in (alphas2, alpha_log_norms1))"

definition hmm_marginal_lpdf_internal ::
  "real matrix \<Rightarrow> real matrix \<Rightarrow> real list \<Rightarrow> real matrix \<Rightarrow> real list
    \<Rightarrow> (real \<times> real matrix \<times> real list \<times> real matrix) option" where
  "hmm_marginal_lpdf_internal log_omegas Gamma rho alphas alpha_log_norms =
     (let omegas = mat_exp log_omegas;
          n_transitions = int (cols log_omegas) - 1
      in if n_transitions < 0 then None
         else
           let alphas1 = set_col alphas 0 (cwiseProduct (col omegas 0) rho);
               norm = maxCoeff (col alphas1 0);
               alphas2 = set_col alphas1 0 (vec_div (col alphas1 0) norm);
               alpha_log_norms1 = alpha_log_norms[0 := ln norm];
               (alphas3, alpha_log_norms3) =
                 fold (hmm_forward_step Gamma omegas) [0..<nat n_transitions]
                   (alphas2, alpha_log_norms1)
           in Some (ln (sum_list (col alphas3 (nat n_transitions)))
                      + alpha_log_norms3 ! nat n_transitions,
                    alphas3, alpha_log_norms3, omegas))"


section \<open>The marginal density of the hidden Markov model and its partials\<close>

text \<open>
  An operand of \<open>hmm_marginal_lpdf\<close> is a container of doubles or of \<open>var\<close>s;
  \<open>is_constant_all\<close> is decided by its type and \<open>value_of_rec\<close> reads the values.
\<close>

datatype mat_operand = Mat_double "real matrix" | Mat_var "addr matrix"

datatype vec_operand = Vec_double "real list" | Vec_var "addr list"

fun is_constant_all_mat :: "mat_operand \<Rightarrow> bool" where
  "is_constant_all_mat (Mat_double m) = True"
| "is_constant_all_mat (Mat_var m) = False"

fun is_constant_all_vec :: "vec_operand \<Rightarrow> bool" where
  "is_constant_all_vec (Vec_double v) = True"
| "is_constant_all_vec (Vec_var v) = False"

fun value_of_rec_mat :: "stack \<Rightarrow> mat_operand \<Rightarrow> real matrix" where
  "value_of_rec_mat st (Mat_double m) = m"
| "value_of_rec_mat st (Mat_var m) =
     \<lparr>rows = rows m, cols = cols m, coeffs = map (\<lambda>p. val (st ! p)) (coeffs m)\<rparr>"

fun value_of_rec_vec :: "stack \<Rightarrow> vec_operand \<Rightarrow> real list" where
  "value_of_rec_vec st (Vec_double v) = v"
| "value_of_rec_vec st (Vec_var v) = map (\<lambda>p. val (st ! p)) v"

text \<open>
  Modelled from the spec: \<open>check_square\<close>, \<open>check_consistent_size\<close> and
  \<open>check_simplex\<close> are not in the sources read here. A simplex is a non-empty vector of
  non-negative entries that sum to 1 within a tolerance; the tolerance constant is not in
  the sources either and is the parameter \<open>tol\<close>. The kind of each error follows the
  documentation of \<open>hmm_marginal_lpdf\<close>: \<open>std::domain_error\<close> for a matrix that is not
  square and for a vector that is not a simplex, \<open>std::invalid_argument\<close> for a size that
  is not the expected one.
\<close>

definition check_square :: "string \<Rightarrow> string \<Rightarrow> 'a matrix \<Rightarrow> error + unit" where
  "check_square function name y =
     (if rows y = cols y then Inr () else Inl (Domain_error function name))"

definition check_consistent_size :: "string \<Rightarrow> string \<Rightarrow> 'a list \<Rightarrow> nat \<Rightarrow> error + unit" where
  "check_consistent_size function name x expected_size =
     (if length x = expected_size then Inr ()
      else Inl (Invalid_argument function name [length x, expected_size]))"

definition is_simplex :: "real \<Rightarrow> real list \<Rightarrow> bool" where
  "is_simplex tol theta \<longleftrightarrow>
     theta \<noteq> [] \<and> \<bar>1 - sum_list theta\<bar> \<le> tol \<and> list_all (\<lambda>x. 0 \<le> x) theta"

definition check_simplex :: "real \<Rightarrow> string \<Rightarrow> string \<Rightarrow> real list \<Rightarrow> error + unit" where
  "check_simplex tol function name theta =
     (if is_simplex tol theta then Inr () else Inl (Domain_error function name))"

text \<open>
  The loop over \<open>i < Gamma.cols()\<close> that checks column \<open>i + 1\<close> (counted from 1) of the
  transposed matrix; the first failure is thrown.
\<close>

fun check_simplex_rows :: "real \<Rightarrow> real matrix \<Rightarrow> nat list \<Rightarrow> error + unit" where
  "check_simplex_rows tol Gamma_transpose [] = Inr ()"
| "check_simplex_rows tol Gamma_transpose (i # is) =
     (case check_simplex tol ''hmm_marginal_lpdf'' ''Gamma[i, ]'' (col Gamma_transpose i) of
        Inl e \<Rightarrow> Inl e
      | Inr _ \<Rightarrow> check_simplex_rows tol Gamma_transpose is)"

text \<open>
  Modelled from the spec: \<open>operands_and_partials\<close> is not in the sources read here. The
  edge of a constant operand has no storage for partials; the edge of a differentiable
  operand starts with zeros of the operand's shape. \<open>build\<close> returns the plain value when
  every operand is constant and otherwise creates one node with the differentiable operands
  and their partials.
\<close>

record operands_and_partials =
  edge1_partials :: "real matrix option"
  edge2_partials :: "real matrix option"
  edge3_partials :: "real list option"

definition new_operands_and_partials ::
  "mat_operand \<Rightarrow> mat_operand \<Rightarrow> vec_operand \<Rightarrow> real matrix \<Rightarrow> real matrix \<Rightarrow> real list
    \<Rightarrow> operands_and_partials" where
  "new_operands_and_partials log_omegas Gamma rho lo g r =
     \<lparr>edge1_partials = (if is_constant_all_mat log_omegas then None
                        else Some (Zero (rows lo) (cols lo))),
      edge2_partials = (if is_constant_all_mat Gamma then None
                        else Some (Zero (rows g) (cols g))),
      edge3_partials = (if is_constant_all_vec rho then None
                        else Some (replicate (length r) 0))\<rparr>"

datatype return_type = Return_double real | Return_var addr

fun mat_operands :: "mat_operand \<Rightarrow> addr list" where
  "mat_operands (Mat_double m) = []"
| "mat_operands (Mat_var m) = coeffs m"

fun vec_operands :: "vec_operand \<Rightarrow> addr list" where
  "vec_operands (Vec_double v) = []"
| "vec_operands (Vec_var v) = v"

definition build ::
  "mat_operand \<Rightarrow> mat_operand \<Rightarrow> vec_operand \<Rightarrow> operands_and_partials \<Rightarrow> real \<Rightarrow> stack
    \<Rightarrow> return_type \<times> stack" where
  "build log_omegas Gamma rho ops_partials v st =
     (if is_constant_all_mat log_omegas \<and> is_constant_all_mat Gamma \<and> is_constant_all_vec rho
      then (Return_double v, st)
      else
        case new_vari v
               (Operands_and_partials
                  (mat_operands log_omegas @ mat_operands Gamma @ vec_operands rho)
                  ((case edge1_partials ops_partials of None \<Rightarrow> [] | Some m \<Rightarrow> coeffs m)
                   @ (case edge2_partials ops_partials of None \<Rightarrow> [] | Some m \<Rightarrow> coeffs m)
                   @ (case edge3_partials ops_partials of None \<Rightarrow> [] | Some w \<Rightarrow> w))) st
        of (p, st') \<Rightarrow> (Return_var p, st'))"

text \<open>
  The \<open>kappa\<close> recursion of \<open>hmm_marginal_lpdf\<close> (the statements from the declaration of
  \<open>kappa\<close> to the end of the loop that runs \<open>n = n_transitions - 2\<close> down to \<open>0\<close>), on the
  triple \<open>(kappa, kappa_log_norms, grad_corr)\<close>.
\<close>

definition hmm_kappa_step ::
  "real matrix \<Rightarrow> real matrix \<Rightarrow> real list \<Rightarrow> real \<Rightarrow> nat
    \<Rightarrow> real list list \<times> real list \<times> real list \<Rightarrow> real list list \<times> real list \<times> real list" where
  "hmm_kappa_step Gamma_dbl omegas alpha_log_norms norm_norm n s =
     (case s of (kappa, kappa_log_norms, grad_corr) \<Rightarrow>
        let kappa1 = kappa[n := times_vec Gamma_dbl
                                  (cwiseProduct (col omegas (n + 2)) (kappa ! (n + 1)))];
            norm = maxCoeff (kappa1 ! n);
            kappa2 = kappa1[n := vec_div (kappa1 ! n) norm];
            kappa_log_norms1 = kappa_log_norms[n := ln norm + kappa_log_norms ! (n + 1)];
            grad_corr1 = grad_corr[n := exp (alpha_log_norms ! n + kappa_log_norms1 ! n
                                             - norm_norm)]
        in (kappa2, kappa_log_norms1, grad_corr1))"

definition hmm_kappa_recursion ::
  "real matrix \<Rightarrow> real matrix \<Rightarrow> real list \<Rightarrow> nat \<Rightarrow> nat
    \<Rightarrow> real list list \<times> real list \<times> real list" where
  "hmm_kappa_recursion Gamma_dbl omegas alpha_log_norms n_states n_transitions =
     (let norm_norm = alpha_log_norms ! n_transitions;
          kappa = replicate n_transitions [];
          kappa_log_norms = replicate n_transitions 0;
          grad_corr = replicate n_transitions 0;
          s = (if n_transitions > 0
               then (kappa[n_transitions - 1 := Ones n_states],
                     kappa_log_norms[n_transitions - 1 := 0],
                     grad_corr[n_transitions - 1 :=
                       exp (alpha_log_norms ! (n_transitions - 1) - norm_norm)])
               else (kappa, kappa_log_norms, grad_corr))
      in fold (hmm_kappa_step Gamma_dbl omegas alpha_log_norms norm_norm)
           (rev [0..<n_transitions - 1]) s)"


text \<open>
  The argument checks of \<open>hmm_marginal_lpdf\<close>, in the order of the source. \<open>row(Gamma, 1)\<close>
  is the first row, whose size is the number of columns; column \<open>i + 1\<close> of
  \<open>Gamma_transpose\<close>, counted from 1, is \<open>col Gamma_transpose i\<close>.
\<close>

definition hmm_check_arguments ::
  "real \<Rightarrow> real matrix \<Rightarrow> real list \<Rightarrow> nat \<Rightarrow> error + unit" where
  "hmm_check_arguments tol Gamma rho n_states =
     (case check_square ''hmm_marginal_lpdf'' ''Gamma'' Gamma of Inl e \<Rightarrow> Inl e | Inr _ \<Rightarrow>
      case check_consistent_size ''hmm_marginal_lpdf'' ''Gamma'' (row Gamma 0) n_states of
        Inl e \<Rightarrow> Inl e
      | Inr _ \<Rightarrow>
      let Gamma_transpose = transpose_mat Gamma
      in case check_simplex_rows tol Gamma_transpose [0..<cols Gamma] of Inl e \<Rightarrow> Inl e | Inr _ \<Rightarrow>
         case check_consistent_size ''hmm_marginal_lpdf'' ''rho'' rho n_states of
           Inl e \<Rightarrow> Inl e
         | Inr _ \<Rightarrow> check_simplex tol ''hmm_marginal_lpdf'' ''rho'' rho)"

text \<open>
  The Jacobian-adjoint products. Each assignment to the partials of an edge is guarded by
  \<open>!is_constant_all\<close> of that operand's type, as in the source. The loops run
  \<open>n = n_transitions - 1\<close> down to \<open>0\<close>.
\<close>

definition hmm_Gamma_jacad ::
  "real matrix \<Rightarrow> real matrix \<Rightarrow> real list list \<Rightarrow> real list \<Rightarrow> nat \<Rightarrow> nat \<Rightarrow> real
    \<Rightarrow> real matrix" where
  "hmm_Gamma_jacad omegas alphas kappa grad_corr n_states n_transitions unnormed_marginal =
     mat_div
       (fold (\<lambda>n Gamma_jacad.
                mat_add Gamma_jacad
                  (outer_transposed
                     (vec_scale (grad_corr ! n) (cwiseProduct (kappa ! n) (col omegas (n + 1))))
                     (col alphas n)))
          (rev [0..<n_transitions]) (Zero n_states n_states))
       unnormed_marginal"

definition hmm_partials ::
  "mat_operand \<Rightarrow> mat_operand \<Rightarrow> vec_operand \<Rightarrow> real matrix \<Rightarrow> real matrix \<Rightarrow> real list
    \<Rightarrow> real \<Rightarrow> real matrix \<Rightarrow> real list \<Rightarrow> real matrix \<Rightarrow> nat \<Rightarrow> nat
    \<Rightarrow> operands_and_partials" where
  "hmm_partials log_omegas Gamma rho lo Gamma_dbl rho_dbl log_marginal_density alphas
     alpha_log_norms omegas n_states n_transitions =
     (let ops_partials = new_operands_and_partials log_omegas Gamma rho lo Gamma_dbl rho_dbl;
          norm_norm = alpha_log_norms ! n_transitions;
          unnormed_marginal = sum_list (col alphas n_transitions);
          (kappa, kappa_log_norms, grad_corr) =
            hmm_kappa_recursion Gamma_dbl omegas alpha_log_norms n_states n_transitions;
          ops1 = (if \<not> is_constant_all_mat Gamma
                  then ops_partials\<lparr>edge2_partials :=
                         Some (hmm_Gamma_jacad omegas alphas kappa grad_corr n_states
                                 n_transitions unnormed_marginal)\<rparr>
                  else ops_partials);
          sensitivities_for_omega_or_rho =
            (\<not> is_constant_all_mat log_omegas \<or> \<not> is_constant_all_vec rho)
      in if sensitivities_for_omega_or_rho
         then
           let log_omega_jacad0 = Zero n_states (n_transitions + 1);
               log_omega_jacad =
                 (if \<not> is_constant_all_mat log_omegas
                  then fold (\<lambda>n j. set_col j (n + 1)
                                     (vec_scale (grad_corr ! n)
                                        (cwiseProduct (kappa ! n)
                                           (transpose_times_vec Gamma_dbl (col alphas n)))))
                         (rev [0..<n_transitions]) log_omega_jacad0
                  else log_omega_jacad0)
           in if n_transitions = 0
              then
                let ops2 = (if \<not> is_constant_all_mat log_omegas
                            then ops1\<lparr>edge1_partials :=
                                   Some (set_col log_omega_jacad 0
                                           (vec_div (cwiseProduct (col omegas 0) rho_dbl)
                                              (exp log_marginal_density)))\<rparr>
                            else ops1)
                in if \<not> is_constant_all_vec rho
                   then ops2\<lparr>edge3_partials :=
                          Some (vec_div (col omegas 0) (exp log_marginal_density))\<rparr>
                   else ops2
              else
                let grad_corr_boundary = exp (kappa_log_norms ! 0 - norm_norm);
                    c = times_vec Gamma_dbl (cwiseProduct (col omegas 1) (kappa ! 0));
                    ops2 = (if \<not> is_constant_all_mat log_omegas
                            then ops1\<lparr>edge1_partials :=
                                   Some (mat_cwiseProduct
                                           (set_col log_omega_jacad 0
                                              (vec_scale grad_corr_boundary
                                                 (cwiseProduct c rho_dbl)))
                                           (mat_div omegas unnormed_marginal))\<rparr>
                            else ops1)
                in if \<not> is_constant_all_vec rho
                   then ops2\<lparr>edge3_partials :=
                          Some (vec_div
                                  (vec_scale grad_corr_boundary
                                     (cwiseProduct c (col omegas 0)))
                                  unnormed_marginal)\<rparr>
                   else ops2
         else ops1)"

text \<open>
  \<open>hmm_marginal_lpdf\<close>. A failed check throws before anything else is done: the result
  is the error and the stack as it was. The buffers \<open>alphas\<close> and \<open>alpha_log_norms\<close> are
  created without initial values and are written before they are read; they start as zeros
  here. The result is \<open>None\<close> when the forward pass is not defined, which is when
  \<open>log_omegas\<close> has no column.
\<close>

definition hmm_marginal_lpdf ::
  "real \<Rightarrow> mat_operand \<Rightarrow> mat_operand \<Rightarrow> vec_operand \<Rightarrow> stack
    \<Rightarrow> ((error + return_type) \<times> stack) option" where
  "hmm_marginal_lpdf tol log_omegas Gamma rho st =
     (let lo = value_of_rec_mat st log_omegas;
          Gamma_dbl = value_of_rec_mat st Gamma;
          rho_dbl = value_of_rec_vec st rho;
          n_states = rows lo;
          n_transitions = int (cols lo) - 1
      in case hmm_check_arguments tol Gamma_dbl rho_dbl n_states of
           Inl e \<Rightarrow> Some (Inl e, st)
         | Inr _ \<Rightarrow>
             let alphas = Zero n_states (nat (n_transitions + 1));
                 alpha_log_norms = replicate (nat (n_transitions + 1)) 0
             in case hmm_marginal_lpdf_internal lo Gamma_dbl rho_dbl alphas alpha_log_norms of
                  None \<Rightarrow> None
                | Some (log_marginal_density, alphas1, alpha_log_norms1, omegas) \<Rightarrow>
                    (case build log_omegas Gamma rho
                            (hmm_partials log_omegas Gamma rho lo Gamma_dbl rho_dbl
                               log_marginal_density alphas1 alpha_log_norms1 omegas n_states
                               (nat n_transitions))
                            log_marginal_density st
                     of (ret, st') \<Rightarrow> Some (Inr ret, st')))"


section \<open>Direct summation over the hidden state paths\<close>






section \<open>Copies to and from the OpenCL device\<close>

text \<open>
  Modelled from the spec: \<open>matrix_cl\<close>, the OpenCL command queue and \<open>check_size_match\<close>
  are not in the sources read here. A device matrix has a buffer, its dimensions and the
  events of the reads and of the writes of the buffer that are still pending. The queue
  holds the commands enqueued so far, each with the events it waits for and its own event,
  and the set of events the host has waited for, which are complete. An enqueue with
  \<open>CL_FALSE\<close> returns immediately. A command reads a buffer into host memory, writes a
  buffer from host memory, copies a buffer to another, or runs a kernel, given with its
  name, the buffers it reads and the buffers it writes. The contents of the buffers are not
  modelled, and a device failure (\<open>cl::Error\<close>) is not either.
\<close>

type_synonym event = nat

datatype cl_operation =
  ReadBuffer nat | WriteBuffer nat | CopyBuffer nat nat | Kernel string "nat list" "nat list"

record cl_command =
  operation :: cl_operation
  wait_list :: "event list"
  completion :: event

record command_queue =
  enqueued :: "cl_command list"
  completed :: "event set"
  next_event :: event

record matrix_cl =
  buffer :: nat
  cl_rows :: nat
  cl_cols :: nat
  read_events :: "event list"
  write_events :: "event list"

definition cl_size :: "matrix_cl \<Rightarrow> nat" where
  "cl_size m = cl_rows m * cl_cols m"

definition enqueue :: "cl_operation \<Rightarrow> event list \<Rightarrow> command_queue \<Rightarrow> event \<times> command_queue" where
  "enqueue op events q =
     (next_event q,
      q\<lparr>enqueued := enqueued q
           @ [\<lparr>operation = op, wait_list = events, completion = next_event q\<rparr>],
        next_event := Suc (next_event q)\<rparr>)"

definition wait_for_events :: "event list \<Rightarrow> command_queue \<Rightarrow> command_queue" where
  "wait_for_events events q = q\<lparr>completed := completed q \<union> set events\<rparr>"

definition clear_read_events :: "matrix_cl \<Rightarrow> matrix_cl" where
  "clear_read_events m = m\<lparr>read_events := []\<rparr>"

definition clear_write_events :: "matrix_cl \<Rightarrow> matrix_cl" where
  "clear_write_events m = m\<lparr>write_events := []\<rparr>"

definition add_read_event :: "event \<Rightarrow> matrix_cl \<Rightarrow> matrix_cl" where
  "add_read_event e m = m\<lparr>read_events := read_events m @ [e]\<rparr>"

definition add_write_event :: "event \<Rightarrow> matrix_cl \<Rightarrow> matrix_cl" where
  "add_write_event e m = m\<lparr>write_events := write_events m @ [e]\<rparr>"

definition check_size_match :: "string \<Rightarrow> string \<Rightarrow> nat \<Rightarrow> string \<Rightarrow> nat \<Rightarrow> error + unit" where
  "check_size_match function name_i i name_j j =
     (if i = j then Inr () else Inl (Invalid_argument function name_i [i, j]))"

text \<open>
  \<open>copy(matrix_cl& dst, const Eigen::Matrix& src)\<close>: the host waits for the reads and the
  writes of the destination, then enqueues the write and records its event.
\<close>

definition copy_eigen_to_cl ::
  "matrix_cl \<Rightarrow> 'a matrix \<Rightarrow> command_queue \<Rightarrow> (error + unit) \<times> matrix_cl \<times> command_queue" where
  "copy_eigen_to_cl dst src q =
     (case check_size_match ''copy (Eigen -> (OpenCL))'' ''src.rows()'' (rows src)
             ''dst.rows()'' (cl_rows dst) of Inl e \<Rightarrow> (Inl e, dst, q) | Inr _ \<Rightarrow>
      case check_size_match ''copy (Eigen -> (OpenCL))'' ''src.cols()'' (cols src)
             ''dst.cols()'' (cl_cols dst) of Inl e \<Rightarrow> (Inl e, dst, q) | Inr _ \<Rightarrow>
      if msize src = 0 then (Inr (), dst, q)
      else
        let q1 = wait_for_events (read_events dst) q;
            dst1 = clear_read_events dst;
            q2 = wait_for_events (write_events dst1) q1;
            dst2 = clear_write_events dst1;
            (copy_event, q3) = enqueue (WriteBuffer (buffer dst2)) [] q2
        in (Inr (), add_write_event copy_event dst2, q3))"

text \<open>
  \<open>copy(Eigen::Matrix& dst, const matrix_cl& src)\<close>: the read is enqueued with the write
  events of the source as its wait list; the host waits for the read and clears the write
  events.
\<close>

definition copy_cl_to_eigen ::
  "'a matrix \<Rightarrow> matrix_cl \<Rightarrow> command_queue \<Rightarrow> (error + unit) \<times> matrix_cl \<times> command_queue" where
  "copy_cl_to_eigen dst src q =
     (case check_size_match ''copy ((OpenCL) -> Eigen)'' ''src.rows()'' (cl_rows src)
             ''dst.rows()'' (rows dst) of Inl e \<Rightarrow> (Inl e, src, q) | Inr _ \<Rightarrow>
      case check_size_match ''copy ((OpenCL) -> Eigen)'' ''src.cols()'' (cl_cols src)
             ''dst.cols()'' (cols dst) of Inl e \<Rightarrow> (Inl e, src, q) | Inr _ \<Rightarrow>
      if cl_size src = 0 then (Inr (), src, q)
      else
        let (copy_event, q1) = enqueue (ReadBuffer (buffer src)) (write_events src) q;
            q2 = wait_for_events [copy_event] q1
        in (Inr (), clear_write_events src, q2))"

text \<open>
  \<open>copy(matrix_cl& dst, const matrix_cl& src)\<close>: the copy is enqueued with the read events
  of the destination and the write events of the source as its wait list, and its event is
  recorded as a write of the destination and a read of the source.
\<close>

definition copy_cl_to_cl ::
  "matrix_cl \<Rightarrow> matrix_cl \<Rightarrow> command_queue
    \<Rightarrow> (error + unit) \<times> matrix_cl \<times> matrix_cl \<times> command_queue" where
  "copy_cl_to_cl dst src q =
     (case check_size_match ''copy ((OpenCL) -> (OpenCL))'' ''src.rows()'' (cl_rows src)
             ''dst.rows()'' (cl_rows dst) of Inl e \<Rightarrow> (Inl e, dst, src, q) | Inr _ \<Rightarrow>
      case check_size_match ''copy ((OpenCL) -> (OpenCL))'' ''src.cols()'' (cl_cols src)
             ''dst.cols()'' (cl_cols dst) of Inl e \<Rightarrow> (Inl e, dst, src, q) | Inr _ \<Rightarrow>
      if cl_size src = 0 then (Inr (), dst, src, q)
      else
        let mat_events = read_events dst @ write_events src;
            (copy_event, q1) = enqueue (CopyBuffer (buffer src) (buffer dst)) mat_events q
        in (Inr (), add_write_event copy_event dst, add_read_event copy_event src, q1))"

text \<open>The two overloads for a 1 by 1 device matrix and an arithmetic value on the host.\<close>

definition copy_cl_to_scalar ::
  "matrix_cl \<Rightarrow> command_queue \<Rightarrow> (error + unit) \<times> matrix_cl \<times> command_queue" where
  "copy_cl_to_scalar src q =
     (case check_size_match ''copy ((OpenCL) -> (OpenCL))'' ''src.rows()'' (cl_rows src)
             ''dst.rows()'' 1 of Inl e \<Rightarrow> (Inl e, src, q) | Inr _ \<Rightarrow>
      case check_size_match ''copy ((OpenCL) -> (OpenCL))'' ''src.cols()'' (cl_cols src)
             ''dst.cols()'' 1 of Inl e \<Rightarrow> (Inl e, src, q) | Inr _ \<Rightarrow>
      let (copy_event, q1) = enqueue (ReadBuffer (buffer src)) (write_events src) q;
          q2 = wait_for_events [copy_event] q1
      in (Inr (), clear_write_events src, q2))"

definition copy_scalar_to_cl ::
  "matrix_cl \<Rightarrow> command_queue \<Rightarrow> (error + unit) \<times> matrix_cl \<times> command_queue" where
  "copy_scalar_to_cl dst q =
     (case check_size_match ''copy ((OpenCL) -> (OpenCL))'' ''src.rows()'' (cl_rows dst)
             ''dst.rows()'' 1 of Inl e \<Rightarrow> (Inl e, dst, q) | Inr _ \<Rightarrow>
      case check_size_match ''copy ((OpenCL) -> (OpenCL))'' ''src.cols()'' (cl_cols dst)
             ''dst.cols()'' 1 of Inl e \<Rightarrow> (Inl e, dst, q) | Inr _ \<Rightarrow>
      let q1 = wait_for_events (read_events dst) q;
          dst1 = clear_read_events dst;
          (copy_event, q2) = enqueue (WriteBuffer (buffer dst1)) [] q1
      in (Inr (), add_write_event copy_event dst1, q2))"

text \<open>
  Modelled from the spec: the constructor of \<open>matrix_cl\<close> and the kernel functors
  \<open>opencl_kernels::pack\<close> and \<open>opencl_kernels::unpack\<close> are not in the sources read here.
  A new device matrix has a buffer of its own, named by the caller here, and no pending
  event. A kernel call with an output matrix and an input matrix follows the dependency
  tracking that the spec asks of every device operation: it is enqueued with the write
  events of its input and the read and write events of its output as its wait list, and
  its event is recorded as a write of the output and a read of the input.
\<close>

definition new_matrix_cl :: "nat \<Rightarrow> nat \<Rightarrow> nat \<Rightarrow> matrix_cl" where
  "new_matrix_cl b r c =
     \<lparr>buffer = b, cl_rows = r, cl_cols = c, read_events = [], write_events = []\<rparr>"

definition kernel_call ::
  "string \<Rightarrow> matrix_cl \<Rightarrow> matrix_cl \<Rightarrow> command_queue
    \<Rightarrow> matrix_cl \<times> matrix_cl \<times> command_queue" where
  "kernel_call name out inp q =
     (let events = write_events inp @ read_events out @ write_events out;
          (kernel_event, q1) = enqueue (Kernel name [buffer inp] [buffer out]) events q
      in (add_write_event kernel_event out, add_read_event kernel_event inp, q1))"

definition pack ::
  "matrix_cl \<Rightarrow> matrix_cl \<Rightarrow> command_queue \<Rightarrow> matrix_cl \<times> matrix_cl \<times> command_queue" where
  "pack packed src q = kernel_call ''pack'' packed src q"

definition unpack ::
  "matrix_cl \<Rightarrow> matrix_cl \<Rightarrow> command_queue \<Rightarrow> matrix_cl \<times> matrix_cl \<times> command_queue" where
  "unpack dst packed q = kernel_call ''unpack'' dst packed q"

text \<open>
  \<open>packed_copy(const matrix_cl& src)\<close>, from the device to a \<open>std::vector\<close>: the matrix
  is packed into the new device matrix \<open>packed\<close>, whose buffer is \<open>b\<close>; the read of
  \<open>packed\<close> is enqueued with the read events of \<open>packed\<close> and the write events of
  \<open>src\<close> as its wait list; the host waits for the read and clears the events of \<open>src\<close>.
  The result is \<open>src\<close> with its events and the queue.
\<close>

definition packed_copy_cl_to_vector ::
  "matrix_cl \<Rightarrow> nat \<Rightarrow> command_queue \<Rightarrow> matrix_cl \<times> command_queue" where
  "packed_copy_cl_to_vector src b q =
     (let packed_size = cl_rows src * (cl_rows src + 1) div 2
      in if packed_size = 0 then (src, q)
         else
           let packed = new_matrix_cl b packed_size 1;
               (packed1, src1, q1) = pack packed src q;
               mat_events = read_events packed1 @ write_events src1;
               (copy_event, q2) = enqueue (ReadBuffer (buffer packed1)) mat_events q1;
               q3 = wait_for_events [copy_event] q2
           in (clear_read_events (clear_write_events src1), q3))"

text \<open>
  \<open>packed_copy(const std::vector<double>& src, int rows)\<close>, from a \<open>std::vector\<close> of
  \<open>src_size\<close> entries to the device: the new matrices \<open>dst\<close> and \<open>packed\<close> have the buffers
  \<open>bd\<close> and \<open>bp\<close>; the write of \<open>packed\<close> is enqueued and recorded as a write event of
  \<open>packed\<close>, and \<open>packed\<close> is unpacked into \<open>dst\<close>, which is returned.
\<close>

definition packed_copy_vector_to_cl ::
  "nat \<Rightarrow> nat \<Rightarrow> nat \<Rightarrow> nat \<Rightarrow> command_queue \<Rightarrow> (error + matrix_cl) \<times> command_queue" where
  "packed_copy_vector_to_cl src_size n_rows bd bp q =
     (let packed_size = n_rows * (n_rows + 1) div 2
      in case check_size_match ''copy (packed std::vector -> OpenCL)'' ''src.size()'' src_size
                ''rows * (rows + 1) / 2'' packed_size of
           Inl e \<Rightarrow> (Inl e, q)
         | Inr _ \<Rightarrow>
             let dst = new_matrix_cl bd n_rows n_rows
             in if cl_size dst = 0 then (Inr dst, q)
                else
                  let packed = new_matrix_cl bp packed_size 1;
                      (packed_event, q1) = enqueue (WriteBuffer (buffer packed)) [] q;
                      packed1 = add_write_event packed_event packed;
                      (dst1, packed2, q2) = unpack dst packed1 q1
                  in (Inr dst1, q2))"

text \<open>
  A command reads or writes a buffer according to its operation. The events \<open>es\<close> are
  complete before a command starts when each of them is in the command's wait list or was
  already complete when the command was enqueued.
\<close>

fun reads_buffer :: "cl_operation \<Rightarrow> nat \<Rightarrow> bool" where
  "reads_buffer (ReadBuffer b) c = (b = c)"
| "reads_buffer (WriteBuffer b) c = False"
| "reads_buffer (CopyBuffer s d) c = (s = c)"
| "reads_buffer (Kernel name ins outs) c = (c \<in> set ins)"

fun writes_buffer :: "cl_operation \<Rightarrow> nat \<Rightarrow> bool" where
  "writes_buffer (ReadBuffer b) c = False"
| "writes_buffer (WriteBuffer b) c = (b = c)"
| "writes_buffer (CopyBuffer s d) c = (d = c)"
| "writes_buffer (Kernel name ins outs) c = (c \<in> set outs)"

definition starts_after :: "cl_command \<Rightarrow> event set \<Rightarrow> event list \<Rightarrow> bool" where
  "starts_after c done_before es \<longleftrightarrow> set es \<subseteq> set (wait_list c) \<union> done_before"


section \<open>The forward pass on doubles: range and special values\<close>

text \<open>
  The forward pass once more, on doubles with their special values, to follow what the
  code does when a result leaves the range of a double. Only the range is modelled: a
  result of magnitude below \<open>2\<^sup>-\<^sup>1\<^sup>0\<^sup>7\<^sup>5\<close>, half the smallest positive double, is 0
  (underflow); a result of magnitude \<open>2\<^sup>1\<^sup>0\<^sup>2\<^sup>4\<close> or more is infinite (overflow); any other
  result is kept as it is, so the rounding to 53 bits is not modelled, and the sign of a
  zero is not either (a zero divisor is \<open>+0\<close>). The special values follow IEEE 754:
  NaN propagates through every operation, \<open>0 / 0\<close>, \<open>\<infinity> - \<infinity>\<close> and \<open>0 \<times> \<infinity>\<close> are NaN,
  \<open>log 0 = -\<infinity>\<close>, and a comparison with NaN is false.
\<close>

definition round_range :: "real \<Rightarrow> double" where
  "round_range x =
     (if \<bar>x\<bar> < 1 / 2 ^ 1075 then Finite 0
      else if 2 ^ 1024 \<le> \<bar>x\<bar> then (if 0 < x then PInf else NInf)
      else Finite x)"

















section \<open>Properties of the finite check\<close>

lemma not_allFinite_iff: "\<not> allFinite y \<longleftrightarrow> (\<exists>n < msize y. \<not> isfinite (coeff1 y n))"
  by (auto simp: allFinite_def list_all_iff)

text \<open>
  C8. The element loop returns on the first element: a matrix whose first coefficient is
  finite and that has a non-finite coefficient at a later position is reported as finite.
\<close>

theorem check_early_return:
  assumes "isfinite (coeff1 y 0)" and "n < msize y" and "\<not> isfinite (coeff1 y n)"
  shows "check y = Some True \<and> 0 < n \<and> \<not> allFinite y"
proof -
  have nf: "\<not> allFinite y"
    using assms(2,3) not_allFinite_iff by blast
  have pos: "0 < n"
    using assms(1,3) by (cases n) auto
  have "0 < msize y"
    using assms(2) by simp
  then have "check_loop y 0 = Some True"
    using assms(1) by (simp add: check_loop_def)
  with nf pos show ?thesis
    by (simp add: check_def)
qed

theorem check_early_return_witness:
  "check \<lparr>rows = 2, cols = 1, coeffs = [Finite 1, NaN]\<rparr> = Some True
   \<and> \<not> allFinite \<lparr>rows = 2, cols = 1, coeffs = [Finite 1, NaN]\<rparr>"
  using check_early_return [of "\<lparr>rows = 2, cols = 1, coeffs = [Finite 1, NaN]\<rparr>" 1]
  by (simp add: coeff1_def msize_def)

section \<open>Properties of the squared distance nodes\<close>

lemma length_adj_add [simp]: "length (adj_add st p d) = length st"
  by (simp add: adj_add_def)

lemma length_adj_sub [simp]: "length (adj_sub st p d) = length st"
  by (simp add: adj_sub_def)

lemma nth_adj_add_other: "q \<noteq> p \<Longrightarrow> adj_add st p d ! q = st ! q"
  by (simp add: adj_add_def)

lemma nth_adj_sub_other: "q \<noteq> p \<Longrightarrow> adj_sub st p d ! q = st ! q"
  by (simp add: adj_sub_def)

lemma nth_adj_add_same:
  "p < length st \<Longrightarrow> adj_add st p d ! p = (st ! p)\<lparr>adj := adj (st ! p) + d\<rparr>"
  by (simp add: adj_add_def)

lemma nth_adj_sub_same:
  "p < length st \<Longrightarrow> adj_sub st p d ! p = (st ! p)\<lparr>adj := adj (st ! p) - d\<rparr>"
  by (simp add: adj_sub_def)

lemma val_adj_add [simp]: "val (adj_add st p d ! q) = val (st ! q)"
  by (cases "q = p"; cases "p < length st") (simp_all add: adj_add_def list_update_beyond)

lemma val_adj_sub [simp]: "val (adj_sub st p d ! q) = val (st ! q)"
  by (cases "q = p"; cases "p < length st") (simp_all add: adj_sub_def list_update_beyond)

lemma kind_adj_add [simp]: "kind (adj_add st p d ! q) = kind (st ! q)"
  by (cases "q = p"; cases "p < length st") (simp_all add: adj_add_def list_update_beyond)

lemma kind_adj_sub [simp]: "kind (adj_sub st p d ! q) = kind (st ! q)"
  by (cases "q = p"; cases "p < length st") (simp_all add: adj_sub_def list_update_beyond)

text \<open>
  C5. The scalar node of two differentiable operands has value \<open>(a - b)\<^sup>2\<close>; with its
  adjoint seeded at \<open>g\<close>, its \<open>chain()\<close> adds \<open>g * 2 * (a - b)\<close> to the adjoint of
  \<open>a\<close> and subtracts the same quantity from the adjoint of \<open>b\<close>. For \<open>a = 3\<close>,
  \<open>b = 1\<close> and seed 1 the value is 4 and the adjoints are 4 and -4.
\<close>

theorem scal_squared_distance_vv_value_and_chain:
  assumes a: "a < length st" and b: "b < length st"
  shows "case squared_distance_v_v a b st of (r, st1) \<Rightarrow>
           val (st1 ! r) = (val (st ! a) - val (st ! b))\<^sup>2
           \<and> adj (chain r (st1[r := (st1 ! r)\<lparr>adj := g\<rparr>]) ! a)
               = adj (st ! a) + g * 2 * (val (st ! a) - val (st ! b))
           \<and> adj (chain r (st1[r := (st1 ! r)\<lparr>adj := g\<rparr>]) ! b)
               = adj (st ! b) - g * 2 * (val (st ! a) - val (st ! b))"
proof -
  define nd where "nd = \<lparr>val = squared_distance_dd (val (st ! a)) (val (st ! b)), adj = 0,
    kind = Scal_squared_distance_vv a b\<rparr>"
  define s where "s = st @ [nd\<lparr>adj := g\<rparr>]"
  have sd: "squared_distance_v_v a b st = (length st, st @ [nd])"
    by (simp add: squared_distance_v_v_def scal_squared_distance_vv_vari_def new_vari_def nd_def)
  have upd: "(st @ [nd])[length st := ((st @ [nd]) ! length st)\<lparr>adj := g\<rparr>] = s"
    by (simp add: s_def)
  have sa: "s ! a = st ! a" and sb: "s ! b = st ! b" and sr: "s ! length st = nd\<lparr>adj := g\<rparr>"
    using a b by (simp_all add: s_def nth_append)
  have len: "length s = Suc (length st)"
    by (simp add: s_def)
  have ch: "chain (length st) s = scal_squared_distance_vv_chain (length st) a b s"
    by (simp add: chain_def sr nd_def)
  let ?d = "g * 2 * (val (st ! a) - val (st ! b))"
  have ra: "length st \<noteq> a" and rb: "length st \<noteq> b"
    using a b by simp_all
  have ch2: "chain (length st) s = adj_sub (adj_add s a ?d) b ?d"
    using ra by (simp add: ch scal_squared_distance_vv_chain_def Let_def sa sb sr
        nth_adj_add_other)
  have A: "adj (chain (length st) s ! a) = adj (st ! a) + ?d"
  proof (cases "a = b")
    case True
    then show ?thesis
      using a by (simp add: ch2 nth_adj_sub_same nth_adj_add_same len sa sb)
  next
    case False
    then show ?thesis
      using a by (simp add: ch2 nth_adj_sub_other nth_adj_add_same len sa)
  qed
  have B: "adj (chain (length st) s ! b) = adj (st ! b) - ?d"
  proof (cases "a = b")
    case True
    then show ?thesis
      using a by (simp add: ch2 nth_adj_sub_same nth_adj_add_same len sa sb)
  next
    case False
    then show ?thesis
      using b by (simp add: ch2 nth_adj_sub_same nth_adj_add_other len sb)
  qed
  have V: "val ((st @ [nd]) ! length st) = (val (st ! a) - val (st ! b))\<^sup>2"
    by (simp add: nd_def squared_distance_dd_def)
  show ?thesis
    using A B V by (simp add: sd s_def)
qed

theorem scal_squared_distance_vv_witness:
  "case squared_distance_v_v 0 1 [\<lparr>val = 3, adj = 0, kind = Leaf\<rparr>, \<lparr>val = 1, adj = 0, kind = Leaf\<rparr>]
   of (r, st1) \<Rightarrow>
     val (st1 ! r) = 4
     \<and> adj (chain r (st1[r := (st1 ! r)\<lparr>adj := 1\<rparr>]) ! 0) = 4
     \<and> adj (chain r (st1[r := (st1 ! r)\<lparr>adj := 1\<rparr>]) ! 1) = - 4"
  using scal_squared_distance_vv_value_and_chain
    [of 0 "[\<lparr>val = 3, adj = 0, kind = Leaf\<rparr>, \<lparr>val = 1, adj = 0, kind = Leaf\<rparr>]" 1 1]
  by (simp split: prod.splits)

lemma fold_adj_add_frame:
  "p \<notin> (\<lambda>i. v1 ! i) ` set js \<Longrightarrow>
   fold (\<lambda>i s. adj_add s (v1 ! i) (f i s)) js st ! p = st ! p"
  by (induction js arbitrary: st) (auto simp: nth_adj_add_other)

lemma squared_distance_vd_chain_frame:
  assumes "p \<notin> (\<lambda>i. v1 ! i) ` {..<n}"
  shows "squared_distance_vd_chain self v1 v2 n st ! p = st ! p"
  unfolding squared_distance_vd_chain_def
  using assms by (intro fold_adj_add_frame) (simp add: lessThan_atLeast0)

lemma scal_squared_distance_vd_chain_frame:
  "p \<noteq> avi \<Longrightarrow> scal_squared_distance_vd_chain self avi bd st ! p = st ! p"
  by (simp add: scal_squared_distance_vd_chain_def nth_adj_add_other)

lemma scal_squared_distance_dv_chain_frame:
  "p \<noteq> bvi \<Longrightarrow> scal_squared_distance_dv_chain self ad bvi st ! p = st ! p"
  by (simp add: scal_squared_distance_dv_chain_def nth_adj_sub_other)

lemma fold_plus_sum:
  "fold (\<lambda>i (r::real). r + f i) [0..<n] a = a + (\<Sum>i<n. f i)"
  by (induction n arbitrary: a) simp_all

lemma var_squared_distance_vd_sum:
  "var_squared_distance_vd st v1 v2 = (\<Sum>i<msize v1. (val (st ! coeff1 v1 i) - coeff1 v2 i)\<^sup>2)"
  by (simp add: var_squared_distance_vd_def Let_def fold_plus_sum power2_eq_square)

lemma squared_distance_mv_md_ok:
  assumes "rows v = 1 \<or> cols v = 1" and "rows d = 1 \<or> cols d = 1" and "msize v = msize d"
  shows "squared_distance_mv_md v d st =
     (Inr (length st),
      st @ [\<lparr>val = var_squared_distance_vd st v d, adj = 0,
             kind = Squared_distance_vd (map (coeff1 v) [0..<msize v])
                      (map (coeff1 d) [0..<msize v]) (msize v)\<rparr>])"
  using assms
  by (simp add: squared_distance_mv_md_def check_vector_def check_matching_sizes_def
      squared_distance_vd_vari_def new_vari_def Let_def)

lemma fold_adj_add_adj:
  assumes "self \<notin> (\<lambda>i. v1 ! i) ` set js" and "\<forall>i\<in>set js. v1 ! i < length st"
    and "p < length st"
  shows "adj (fold (\<lambda>i s. adj_add s (v1 ! i)
                 (2 * adj (s ! self) * (val (s ! (v1 ! i)) - v2 ! i))) js st ! p)
         = adj (st ! p)
           + (\<Sum>i\<leftarrow>filter (\<lambda>i. v1 ! i = p) js. 2 * adj (st ! self) * (val (st ! p) - v2 ! i))"
  using assms
proof (induction js arbitrary: st)
  case Nil
  then show ?case by simp
next
  case (Cons j js)
  let ?d = "2 * adj (st ! self) * (val (st ! (v1 ! j)) - v2 ! j)"
  let ?st = "adj_add st (v1 ! j) ?d"
  have self: "self \<noteq> v1 ! j" and rest: "self \<notin> (\<lambda>i. v1 ! i) ` set js"
    using Cons.prems(1) by auto
  have st_self: "?st ! self = st ! self"
    using self by (simp add: nth_adj_add_other)
  have IH: "adj (fold (\<lambda>i s. adj_add s (v1 ! i)
                 (2 * adj (s ! self) * (val (s ! (v1 ! i)) - v2 ! i))) js ?st ! p)
         = adj (?st ! p)
           + (\<Sum>i\<leftarrow>filter (\<lambda>i. v1 ! i = p) js. 2 * adj (?st ! self) * (val (?st ! p) - v2 ! i))"
    using Cons.prems by (intro Cons.IH rest) simp_all
  have step: "adj (?st ! p) = adj (st ! p) + (if v1 ! j = p then ?d else 0)"
    using Cons.prems(3) by (simp add: nth_adj_add_other nth_adj_add_same)
  show ?case
    by (simp add: IH step st_self)
qed

lemma squared_distance_vd_chain_adj:
  assumes "self \<notin> (\<lambda>i. v1 ! i) ` {..<n}" and "\<forall>i<n. v1 ! i < length st" and "p < length st"
  shows "adj (squared_distance_vd_chain self v1 v2 n st ! p)
         = adj (st ! p)
           + (\<Sum>i | i < n \<and> v1 ! i = p. 2 * adj (st ! self) * (val (st ! p) - v2 ! i))"
proof -
  have "adj (squared_distance_vd_chain self v1 v2 n st ! p)
         = adj (st ! p)
           + (\<Sum>i\<leftarrow>filter (\<lambda>i. v1 ! i = p) [0..<n].
                2 * adj (st ! self) * (val (st ! p) - v2 ! i))"
    unfolding squared_distance_vd_chain_def
    using assms by (intro fold_adj_add_adj) (auto simp: lessThan_atLeast0)
  also have "(\<Sum>i\<leftarrow>filter (\<lambda>i. v1 ! i = p) [0..<n].
                2 * adj (st ! self) * (val (st ! p) - v2 ! i))
      = (\<Sum>i | i < n \<and> v1 ! i = p. 2 * adj (st ! self) * (val (st ! p) - v2 ! i))"
  proof -
    have "set (filter (\<lambda>i. v1 ! i = p) [0..<n]) = {i. i < n \<and> v1 ! i = p}"
      by auto
    then show ?thesis
      by (simp add: sum_list_distinct_conv_sum_set)
  qed
  finally show ?thesis .
qed

text \<open>
  C10. For a double vector \<open>d\<close> and a differentiable vector \<open>v\<close> of matching sizes,
  \<open>squared_distance(d, v)\<close> is \<open>squared_distance(v, d)\<close>: the same node with the same
  value, the sum of the squared differences, and the same adjoints on \<open>v\<close> after
  \<open>chain()\<close> with the node's adjoint seeded at \<open>g\<close>.
\<close>

theorem squared_distance_md_mv_symmetric:
  assumes "rows d = 1 \<or> cols d = 1" and "rows v = 1 \<or> cols v = 1" and "msize d = msize v"
    and "\<forall>i<msize v. coeff1 v i < length st"
  shows "squared_distance_md_mv d v st = squared_distance_mv_md v d st
    \<and> (case squared_distance_md_mv d v st of
         (Inl e, st1) \<Rightarrow> False
       | (Inr r, st1) \<Rightarrow>
           val (st1 ! r) = (\<Sum>i<msize v. (coeff1 d i - val (st ! coeff1 v i))\<^sup>2)
           \<and> (\<forall>g p. p < length st \<longrightarrow>
                adj (chain r (st1[r := (st1 ! r)\<lparr>adj := g\<rparr>]) ! p)
                = adj (st ! p)
                  + (\<Sum>i | i < msize v \<and> coeff1 v i = p. 2 * g * (val (st ! p) - coeff1 d i))))"
proof -
  have eq: "squared_distance_md_mv d v st = squared_distance_mv_md v d st"
    using assms(1-3)
    by (simp add: squared_distance_md_mv_def squared_distance_mv_md_def check_vector_def
      check_matching_sizes_def)
  have sq: "\<And>x y::real. (x - y)\<^sup>2 = (y - x)\<^sup>2"
    by (simp add: power2_commute)
  define n where "n = msize v"
  define v1 where "v1 = map (coeff1 v) [0..<n]"
  define v2 where "v2 = map (coeff1 d) [0..<n]"
  define nd where "nd = \<lparr>val = var_squared_distance_vd st v d, adj = 0,
             kind = Squared_distance_vd v1 v2 n\<rparr>"
  have res: "squared_distance_mv_md v d st = (Inr (length st), st @ [nd])"
    using assms(1-3) by (simp add: squared_distance_mv_md_ok nd_def v1_def v2_def n_def)
  have adj: "adj (chain (length st) (st @ [nd\<lparr>adj := g\<rparr>]) ! p)
        = adj (st ! p) + (\<Sum>i | i < n \<and> coeff1 v i = p. 2 * g * (val (st ! p) - coeff1 d i))"
    if p: "p < length st" for g p
  proof -
    let ?s = "st @ [nd\<lparr>adj := g\<rparr>]"
    have ch: "chain (length st) ?s = squared_distance_vd_chain (length st) v1 v2 n ?s"
      by (simp add: chain_def nd_def)
    have v1n: "\<And>i. i < n \<Longrightarrow> v1 ! i = coeff1 v i" and v2n: "\<And>i. i < n \<Longrightarrow> v2 ! i = coeff1 d i"
      by (simp_all add: v1_def v2_def)
    have valid: "\<forall>i<n. v1 ! i < length ?s"
      using assms(4) by (auto simp: v1n n_def)
    have self: "length st \<notin> (\<lambda>i. v1 ! i) ` {..<n}"
      using assms(4) by (auto simp: v1n n_def)
    have "adj (chain (length st) ?s ! p)
        = adj (?s ! p) + (\<Sum>i | i < n \<and> v1 ! i = p.
             2 * adj (?s ! length st) * (val (?s ! p) - v2 ! i))"
      unfolding ch using self valid p by (intro squared_distance_vd_chain_adj) simp_all
    also have "(\<Sum>i | i < n \<and> v1 ! i = p. 2 * adj (?s ! length st) * (val (?s ! p) - v2 ! i))
        = (\<Sum>i | i < n \<and> coeff1 v i = p. 2 * g * (val (st ! p) - coeff1 d i))"
      using p by (intro sum.cong) (auto simp: v1n v2n nth_append)
    finally show ?thesis
      using p by (simp add: nth_append)
  qed
  have v: "val nd = (\<Sum>i<n. (coeff1 d i - val (st ! coeff1 v i))\<^sup>2)"
    by (simp add: nd_def var_squared_distance_vd_sum sq n_def)
  show ?thesis
    unfolding eq using adj v by (simp add: res n_def)
qed


theorem squared_distance_md_mv_symmetric_witness:
  "squared_distance_md_mv \<lparr>rows = 2, cols = 1, coeffs = [1, 2]\<rparr>
       \<lparr>rows = 2, cols = 1, coeffs = [0, 1]\<rparr>
       [\<lparr>val = 3, adj = 0, kind = Leaf\<rparr>, \<lparr>val = 5, adj = 0, kind = Leaf\<rparr>]
     = squared_distance_mv_md \<lparr>rows = 2, cols = 1, coeffs = [0, 1]\<rparr>
         \<lparr>rows = 2, cols = 1, coeffs = [1, 2]\<rparr>
         [\<lparr>val = 3, adj = 0, kind = Leaf\<rparr>, \<lparr>val = 5, adj = 0, kind = Leaf\<rparr>]
   \<and> (case squared_distance_md_mv \<lparr>rows = 2, cols = 1, coeffs = [1, 2]\<rparr>
           \<lparr>rows = 2, cols = 1, coeffs = [0, 1]\<rparr>
           [\<lparr>val = 3, adj = 0, kind = Leaf\<rparr>, \<lparr>val = 5, adj = 0, kind = Leaf\<rparr>] of
         (Inl e, st1) \<Rightarrow> False
       | (Inr r, st1) \<Rightarrow>
           val (st1 ! r) = 13
           \<and> adj (chain r (st1[r := (st1 ! r)\<lparr>adj := 1\<rparr>]) ! 0) = 4
           \<and> adj (chain r (st1[r := (st1 ! r)\<lparr>adj := 1\<rparr>]) ! 1) = 6)"
proof -
  define d where "d = \<lparr>rows = 2, cols = 1, coeffs = [1, 2 :: real]\<rparr>"
  define v where "v = \<lparr>rows = 2, cols = 1, coeffs = [0, 1 :: addr]\<rparr>"
  define st where "st = [\<lparr>val = 3, adj = 0, kind = Leaf\<rparr>, \<lparr>val = 5, adj = 0, kind = Leaf\<rparr>]"
  have ms: "msize d = 2" "msize v = 2" and len: "length st = 2"
    by (simp_all add: msize_def d_def v_def st_def)
  have cv: "coeff1 v 0 = 0" "coeff1 v (Suc 0) = 1"
    and cd: "coeff1 d 0 = 1" "coeff1 d (Suc 0) = 2"
    and sv: "val (st ! 0) = 3" "val (st ! Suc 0) = 5"
    and sa: "adj (st ! 0) = 0" "adj (st ! Suc 0) = 0"
    by (simp_all add: coeff1_def d_def v_def st_def)
  have h1: "rows d = 1 \<or> cols d = 1" and h2: "rows v = 1 \<or> cols v = 1"
    by (simp_all add: d_def v_def)
  have h3: "msize d = msize v"
    by (simp add: ms)
  have h4: "\<forall>i<msize v. coeff1 v i < length st"
    by (auto simp: ms len cv less_Suc_eq numeral_2_eq_2)
  have s0: "{i. i < 2 \<and> coeff1 v i = 0} = {0}"
    and s1: "{i. i < 2 \<and> coeff1 v i = Suc 0} = {Suc 0}"
    using cv by (auto simp: less_Suc_eq numeral_2_eq_2)
  note T = squared_distance_md_mv_symmetric [OF h1 h2 h3 h4]
  obtain r st1 where res: "squared_distance_md_mv d v st = (Inr r, st1)"
    using T by (auto split: prod.splits sum.splits)
  from T res have V: "val (st1 ! r) = (\<Sum>i<msize v. (coeff1 d i - val (st ! coeff1 v i))\<^sup>2)"
    and A: "\<And>g p. p < length st \<Longrightarrow>
                adj (chain r (st1[r := (st1 ! r)\<lparr>adj := g\<rparr>]) ! p)
                = adj (st ! p)
                  + (\<Sum>i | i < msize v \<and> coeff1 v i = p. 2 * g * (val (st ! p) - coeff1 d i))"
    by simp_all
  have V': "val (st1 ! r) = 13"
    unfolding V by (simp add: ms cv cd sv lessThan_Suc numeral_2_eq_2)
  have A0: "adj (chain r (st1[r := (st1 ! r)\<lparr>adj := 1\<rparr>]) ! 0) = 4"
    using A [of 0 1] by (simp add: ms len s0 cd sv sa)
  have A1: "adj (chain r (st1[r := (st1 ! r)\<lparr>adj := 1\<rparr>]) ! 1) = 6"
    using A [of 1 1] by (simp add: ms len s1 cd sv sa)
  have "squared_distance_md_mv d v st = squared_distance_mv_md v d st
   \<and> (case squared_distance_md_mv d v st of
         (Inl e, st1) \<Rightarrow> False
       | (Inr r, st1) \<Rightarrow>
           val (st1 ! r) = 13
           \<and> adj (chain r (st1[r := (st1 ! r)\<lparr>adj := 1\<rparr>]) ! 0) = 4
           \<and> adj (chain r (st1[r := (st1 ! r)\<lparr>adj := 1\<rparr>]) ! 1) = 6)"
  proof (rule conjI)
    show "squared_distance_md_mv d v st = squared_distance_mv_md v d st"
      using T by (rule conjunct1)
    show "case squared_distance_md_mv d v st of
         (Inl e, st1) \<Rightarrow> False
       | (Inr r, st1) \<Rightarrow>
           val (st1 ! r) = 13
           \<and> adj (chain r (st1[r := (st1 ! r)\<lparr>adj := 1\<rparr>]) ! 0) = 4
           \<and> adj (chain r (st1[r := (st1 ! r)\<lparr>adj := 1\<rparr>]) ! 1) = 6"
      unfolding res using V' A0 A1 by simp
  qed
  then show ?thesis
    unfolding d_def v_def st_def .
qed

section \<open>Properties of the ordered constraint operator\<close>

lemma ordered_constrain_fold:
  assumes "1 \<le> m" and "m \<le> length x" and "length y0 = length x" and "length ex0 = length x - 1"
  shows "case fold (ordered_constrain_step x) [1..<m] (y0, ex0) of (y, ex) \<Rightarrow>
           length y = length x \<and> length ex = length x - 1
           \<and> (\<forall>k<m. y ! k = y0 ! 0 + (\<Sum>j = 1..k. exp (x ! j)))
           \<and> (\<forall>k. m \<le> k \<longrightarrow> y ! k = y0 ! k)
           \<and> (\<forall>k. 1 \<le> k \<and> k < m \<longrightarrow> ex ! (k - 1) = exp (x ! k))"
  using assms
proof (induction m)
  case 0
  then show ?case by simp
next
  case (Suc m)
  show ?case
  proof (cases "m = 0")
    case True
    then show ?thesis using Suc.prems by auto
  next
    case False
    then have m: "1 \<le> m" "m \<le> length x" "m < length x"
      using Suc.prems by simp_all
    obtain y ex where f: "fold (ordered_constrain_step x) [1..<m] (y0, ex0) = (y, ex)"
      by (cases "fold (ordered_constrain_step x) [1..<m] (y0, ex0)")
    from Suc.IH [OF m(1,2) Suc.prems(3,4)] f
    have ly: "length y = length x" and lex: "length ex = length x - 1"
      and yk: "\<And>k. k < m \<Longrightarrow> y ! k = y0 ! 0 + (\<Sum>j = 1..k. exp (x ! j))"
      and yr: "\<And>k. m \<le> k \<Longrightarrow> y ! k = y0 ! k"
      and ek: "\<And>k. 1 \<le> k \<Longrightarrow> k < m \<Longrightarrow> ex ! (k - 1) = exp (x ! k)"
      by auto
    have upt: "[1..<Suc m] = [1..<m] @ [m]"
      using m(1) by simp
    define ex' where "ex' = ex[m - 1 := exp (x ! m)]"
    define y' where "y' = y[m := y ! (m - 1) + ex' ! (m - 1)]"
    have step: "fold (ordered_constrain_step x) [1..<Suc m] (y0, ex0) = (y', ex')"
      by (simp only: upt fold_append o_apply f)
         (simp add: ordered_constrain_step_def Let_def y'_def ex'_def)
    have exm: "ex' ! (m - 1) = exp (x ! m)"
      using m lex by (simp add: ex'_def)
    have ym: "y' ! m = y0 ! 0 + (\<Sum>j = 1..m. exp (x ! j))"
    proof -
      have "y' ! m = y ! (m - 1) + exp (x ! m)"
        using m ly exm by (simp add: y'_def)
      also have "y ! (m - 1) = y0 ! 0 + (\<Sum>j = 1..m - 1. exp (x ! j))"
        using m by (intro yk) simp
      also have "y0 ! 0 + (\<Sum>j = 1..m - 1. exp (x ! j)) + exp (x ! m)
          = y0 ! 0 + (\<Sum>j = 1..m. exp (x ! j))"
      proof -
        obtain m' where "m = Suc m'"
          using m(1) by (cases m) simp_all
        then show ?thesis by simp
      qed
      finally show ?thesis .
    qed
    have A: "\<forall>k<Suc m. y' ! k = y0 ! 0 + (\<Sum>j = 1..k. exp (x ! j))"
    proof (intro allI impI)
      fix k assume "k < Suc m"
      then consider "k = m" | "k < m" by linarith
      then show "y' ! k = y0 ! 0 + (\<Sum>j = 1..k. exp (x ! j))"
      proof cases
        case 1 then show ?thesis using ym by simp
      next
        case 2 then show ?thesis using yk by (simp add: y'_def)
      qed
    qed
    have B: "\<forall>k. Suc m \<le> k \<longrightarrow> y' ! k = y0 ! k"
      using yr by (simp add: y'_def)
    have C: "\<forall>k. 1 \<le> k \<and> k < Suc m \<longrightarrow> ex' ! (k - 1) = exp (x ! k)"
    proof (intro allI impI)
      fix k assume k: "1 \<le> k \<and> k < Suc m"
      then consider "k = m" | "k < m" by linarith
      then show "ex' ! (k - 1) = exp (x ! k)"
      proof cases
        case 1 then show ?thesis using exm by simp
      next
        case 2
        then have "k - 1 \<noteq> m - 1" using k by linarith
        then show ?thesis using ek k 2 by (simp add: ex'_def)
      qed
    qed
    have L: "length y' = length x" "length ex' = length x - 1"
      using ly lex by (simp_all add: y'_def ex'_def)
    show ?thesis
      unfolding step prod.case using A B C L by blast
  qed
qed

lemma ordered_constrain_apply_closed:
  assumes "x \<noteq> []"
  shows "case ordered_constrain_apply x of (y, op) \<Rightarrow>
           length y = length x \<and> N op = length x \<and> length (exp_x op) = length x - 1
           \<and> (\<forall>k<length x. y ! k = x ! 0 + (\<Sum>j = 1..k. exp (x ! j)))
           \<and> (\<forall>k. 1 \<le> k \<and> k < length x \<longrightarrow> exp_x op ! (k - 1) = exp (x ! k))"
proof -
  let ?n = "length x"
  have n: "1 \<le> ?n" using assms by (cases x) simp_all
  have F: "case fold (ordered_constrain_step x) [1..<?n] ((replicate ?n 0)[0 := x ! 0], replicate (?n - 1) 0)
        of (y, ex) \<Rightarrow>
           length y = length x \<and> length ex = length x - 1
           \<and> (\<forall>k<?n. y ! k = (replicate ?n 0)[0 := x ! 0] ! 0 + (\<Sum>j = 1..k. exp (x ! j)))
           \<and> (\<forall>k. ?n \<le> k \<longrightarrow> y ! k = (replicate ?n 0)[0 := x ! 0] ! k)
           \<and> (\<forall>k. 1 \<le> k \<and> k < ?n \<longrightarrow> ex ! (k - 1) = exp (x ! k))"
    using n by (intro ordered_constrain_fold) simp_all
  have z: "(replicate ?n 0)[0 := x ! 0] ! 0 = x ! 0"
    using assms by (cases x) simp_all
  show ?thesis
    using F assms unfolding z
    by (simp add: ordered_constrain_apply_def Let_def split: prod.splits)
qed

lemma multiply_adjoint_jacobian_fold:
  assumes "m \<le> n" and "length ainit = n"
  shows "case fold (multiply_adjoint_jacobian_step op adjv) (rev [m..<n]) (0, ainit) of (r, a) \<Rightarrow>
           r = (\<Sum>k = m..<n. adjv ! k) \<and> length a = n
           \<and> (\<forall>i. m \<le> i \<and> i < n \<longrightarrow> a ! i = exp_x op ! (i - 1) * (\<Sum>k = i..<n. adjv ! k))
           \<and> (\<forall>i<m. a ! i = ainit ! i)"
  using assms(1)
proof (induction m rule: inc_induct)
  case base
  then show ?case using assms(2) by simp
next
  case (step m)
  obtain r a where f: "fold (multiply_adjoint_jacobian_step op adjv) (rev [Suc m..<n]) (0, ainit) = (r, a)"
    by (cases "fold (multiply_adjoint_jacobian_step op adjv) (rev [Suc m..<n]) (0, ainit)")
  from step.IH f
  have r: "r = (\<Sum>k = Suc m..<n. adjv ! k)" and la: "length a = n"
    and ai: "\<And>i. Suc m \<le> i \<Longrightarrow> i < n \<Longrightarrow> a ! i = exp_x op ! (i - 1) * (\<Sum>k = i..<n. adjv ! k)"
    and a_lo: "\<And>i. i < Suc m \<Longrightarrow> a ! i = ainit ! i"
    by auto
  have upt: "rev [m..<n] = rev [Suc m..<n] @ [m]"
    using step.hyps by (simp add: upt_conv_Cons)
  define r' where "r' = r + adjv ! m"
  define a' where "a' = a[m := exp_x op ! (m - 1) * r']"
  have st: "fold (multiply_adjoint_jacobian_step op adjv) (rev [m..<n]) (0, ainit) = (r', a')"
    by (simp only: upt fold_append o_apply f)
       (simp add: multiply_adjoint_jacobian_step_def Let_def r'_def a'_def)
  have R: "r' = (\<Sum>k = m..<n. adjv ! k)"
    using step.hyps by (simp add: r'_def r sum.atLeast_Suc_lessThan)
  have L: "length a' = n"
    by (simp add: a'_def la)
  have A: "\<forall>i. m \<le> i \<and> i < n \<longrightarrow> a' ! i = exp_x op ! (i - 1) * (\<Sum>k = i..<n. adjv ! k)"
  proof (intro allI impI)
    fix i assume i: "m \<le> i \<and> i < n"
    then consider "i = m" | "Suc m \<le> i" by linarith
    then show "a' ! i = exp_x op ! (i - 1) * (\<Sum>k = i..<n. adjv ! k)"
    proof cases
      case 1
      then show ?thesis using i la R by (simp add: a'_def)
    next
      case 2
      then show ?thesis using i ai by (simp add: a'_def)
    qed
  qed
  have B: "\<forall>i<m. a' ! i = ainit ! i"
    using a_lo by (simp add: a'_def)
  show ?case
    unfolding st prod.case using R L A B by blast
qed

lemma multiply_adjoint_jacobian_closed:
  assumes "0 < N op"
  shows "length (multiply_adjoint_jacobian op adjv) = N op"
    and "multiply_adjoint_jacobian op adjv ! 0 = (\<Sum>k<N op. adjv ! k)"
    and "\<And>n. 0 < n \<Longrightarrow> n < N op \<Longrightarrow>
           multiply_adjoint_jacobian op adjv ! n = exp_x op ! (n - 1) * (\<Sum>k = n..<N op. adjv ! k)"
proof -
  let ?n = "N op"
  obtain r a where f: "fold (multiply_adjoint_jacobian_step op adjv) (rev [1..<?n])
      (0, replicate ?n 0) = (r, a)"
    by (cases "fold (multiply_adjoint_jacobian_step op adjv) (rev [1..<?n]) (0, replicate ?n 0)")
  have n1: "1 \<le> ?n" using assms by simp
  from multiply_adjoint_jacobian_fold [OF n1, where ainit = "replicate ?n 0" and op = op and adjv = adjv] f
  have r: "r = (\<Sum>k = 1..<?n. adjv ! k)" and la: "length a = ?n"
    and ai: "\<And>i. 1 \<le> i \<Longrightarrow> i < ?n \<Longrightarrow> a ! i = exp_x op ! (i - 1) * (\<Sum>k = i..<?n. adjv ! k)"
    by auto
  have res: "multiply_adjoint_jacobian op adjv = a[0 := r + adjv ! 0]"
    using assms f by (simp add: multiply_adjoint_jacobian_def Let_def)
  show "length (multiply_adjoint_jacobian op adjv) = N op"
    by (simp add: res la)
  have "r + adjv ! 0 = (\<Sum>k<?n. adjv ! k)"
  proof -
    have "{..<?n} = {0..<?n}" by auto
    then show ?thesis
      using assms by (simp add: r sum.atLeast_Suc_lessThan)
  qed
  then show "multiply_adjoint_jacobian op adjv ! 0 = (\<Sum>k<N op. adjv ! k)"
    using assms by (simp add: res la)
  show "multiply_adjoint_jacobian op adjv ! n = exp_x op ! (n - 1) * (\<Sum>k = n..<N op. adjv ! k)"
    if "0 < n" "n < N op" for n
    using that ai [of n] by (simp add: res)
qed

lemma ordered_constrain_apply_nth:
  assumes "k < length x"
  shows "fst (ordered_constrain_apply x) ! k = x ! 0 + (\<Sum>j = 1..k. exp (x ! j))"
proof -
  have "x \<noteq> []" using assms by auto
  from ordered_constrain_apply_closed [OF this] assms show ?thesis
    by (auto split: prod.splits)
qed

lemma ordered_constrain_partial_derivative:
  assumes n: "n < length x" and k: "k < length x"
  shows "((\<lambda>t. fst (ordered_constrain_apply (x[n := t])) ! k)
            has_real_derivative ordered_constrain_jacobian x k n) (at (x ! n))"
proof -
  have closed: "fst (ordered_constrain_apply (x[n := t])) ! k
      = (x[n := t]) ! 0 + (\<Sum>j = 1..k. exp ((x[n := t]) ! j))" for t
    using k by (intro ordered_constrain_apply_nth) simp
  consider "n = 0" | "0 < n" "n \<le> k" | "k < n" by linarith
  then show ?thesis
  proof cases
    case 1
    have "(\<Sum>j = 1..k. exp ((x[n := t]) ! j)) = (\<Sum>j = 1..k. exp (x ! j))" for t
      using 1 by (intro sum.cong) auto
    then have "fst (ordered_constrain_apply (x[n := t])) ! k
        = t + (\<Sum>j = 1..k. exp (x ! j))" for t
      unfolding closed using n 1 by simp
    then have "(\<lambda>t. fst (ordered_constrain_apply (x[n := t])) ! k)
        = (\<lambda>t. t + (\<Sum>j = 1..k. exp (x ! j)))"
      by (intro ext)
    then show ?thesis
      using 1 by (auto simp: ordered_constrain_jacobian_def intro!: derivative_eq_intros)
  next
    case 2
    have "(\<Sum>j = 1..k. exp ((x[n := t]) ! j))
        = exp t + (\<Sum>j \<in> {1..k} - {n}. exp (x ! j))" for t
    proof -
      have "(\<Sum>j = 1..k. exp ((x[n := t]) ! j))
          = exp ((x[n := t]) ! n) + (\<Sum>j \<in> {1..k} - {n}. exp ((x[n := t]) ! j))"
        using 2 by (intro sum.remove) auto
      also have "(\<Sum>j \<in> {1..k} - {n}. exp ((x[n := t]) ! j)) = (\<Sum>j \<in> {1..k} - {n}. exp (x ! j))"
        by (intro sum.cong) auto
      finally show ?thesis using n by simp
    qed
    then have "fst (ordered_constrain_apply (x[n := t])) ! k
        = x ! 0 + (exp t + (\<Sum>j \<in> {1..k} - {n}. exp (x ! j)))" for t
      unfolding closed using 2 by simp
    then have "(\<lambda>t. fst (ordered_constrain_apply (x[n := t])) ! k)
        = (\<lambda>t. x ! 0 + (exp t + (\<Sum>j \<in> {1..k} - {n}. exp (x ! j))))"
      by (intro ext)
    then show ?thesis
      using 2 by (auto simp: ordered_constrain_jacobian_def intro!: derivative_eq_intros)
  next
    case 3
    have "(\<Sum>j = 1..k. exp ((x[n := t]) ! j)) = (\<Sum>j = 1..k. exp (x ! j))" for t
      using 3 by (intro sum.cong) auto
    then have "fst (ordered_constrain_apply (x[n := t])) ! k
        = x ! 0 + (\<Sum>j = 1..k. exp (x ! j))" for t
      unfolding closed using 3 by simp
    then have "(\<lambda>t. fst (ordered_constrain_apply (x[n := t])) ! k)
        = (\<lambda>t. x ! 0 + (\<Sum>j = 1..k. exp (x ! j)))"
      by (intro ext)
    then show ?thesis
      using 3 by (auto simp: ordered_constrain_jacobian_def)
  qed
qed

lemma ordered_constrain_jacobian_transpose_sum:
  assumes "n < m"
  shows "(\<Sum>k<m. ordered_constrain_jacobian x k n * a k)
     = (if n = 0 then (\<Sum>k<m. a k) else exp (x ! n) * (\<Sum>k = n..<m. a k))"
proof (cases "n = 0")
  case True
  then show ?thesis by (simp add: ordered_constrain_jacobian_def)
next
  case False
  have "(\<Sum>k<m. ordered_constrain_jacobian x k n * a k)
      = (\<Sum>k<m. if n \<le> k then exp (x ! n) * a k else 0)"
    using False by (intro sum.cong) (auto simp: ordered_constrain_jacobian_def)
  also have "\<dots> = (\<Sum>k \<in> {k \<in> {..<m}. n \<le> k}. exp (x ! n) * a k)"
    by (rule sum.inter_filter [symmetric]) simp
  also have "{k \<in> {..<m}. n \<le> k} = {n..<m}"
    by auto
  finally show ?thesis
    using False by (simp add: sum_distrib_left)
qed

text \<open>
  C7. The forward function of \<open>ordered_constrain_op\<close> maps \<open>x\<close> to \<open>y\<close> with
  \<open>y[0] = x[0]\<close> and \<open>y[n] = y[n-1] + exp(x[n])\<close>; for an output adjoint of the same
  size, \<open>multiply_adjoint_jacobian\<close> returns \<open>exp(x[n])\<close> times the sum of the adjoints
  from \<open>n\<close> on in component \<open>n > 0\<close> and the sum of all adjoints in component 0. The
  entries of \<open>ordered_constrain_jacobian\<close> are the partial derivatives of the forward
  function, and the result is the transpose of that Jacobian times the adjoint.
\<close>

theorem ordered_constrain_adjoint_jacobian:
  assumes "length adjv = length x"
  shows "case ordered_constrain_apply x of (y, op) \<Rightarrow>
      length y = length x
    \<and> (x \<noteq> [] \<longrightarrow> y ! 0 = x ! 0)
    \<and> (\<forall>n. 0 < n \<and> n < length x \<longrightarrow> y ! n = y ! (n - 1) + exp (x ! n))
    \<and> length (multiply_adjoint_jacobian op adjv) = length x
    \<and> (x \<noteq> [] \<longrightarrow> multiply_adjoint_jacobian op adjv ! 0 = (\<Sum>k<length x. adjv ! k))
    \<and> (\<forall>n. 0 < n \<and> n < length x \<longrightarrow>
          multiply_adjoint_jacobian op adjv ! n = exp (x ! n) * (\<Sum>k = n..<length x. adjv ! k))
    \<and> (\<forall>n<length x. \<forall>k<length x.
          ((\<lambda>t. fst (ordered_constrain_apply (x[n := t])) ! k)
             has_real_derivative ordered_constrain_jacobian x k n) (at (x ! n)))
    \<and> (\<forall>n<length x. multiply_adjoint_jacobian op adjv ! n
          = (\<Sum>k<length x. ordered_constrain_jacobian x k n * adjv ! k))"
proof (cases "x = []")
  case True
  then show ?thesis
    by (simp add: ordered_constrain_apply_def multiply_adjoint_jacobian_def)
next
  case False
  obtain y op where res: "ordered_constrain_apply x = (y, op)"
    by (cases "ordered_constrain_apply x")
  from ordered_constrain_apply_closed [OF False] res
  have ly: "length y = length x" and N: "N op = length x"
    and yk: "\<And>k. k < length x \<Longrightarrow> y ! k = x ! 0 + (\<Sum>j = 1..k. exp (x ! j))"
    and ex: "\<And>k. 1 \<le> k \<Longrightarrow> k < length x \<Longrightarrow> exp_x op ! (k - 1) = exp (x ! k)"
    by auto
  have pos: "0 < N op"
    using False N by simp
  note maj = multiply_adjoint_jacobian_closed [OF pos, where adjv = adjv]
  have Y0: "y ! 0 = x ! 0"
    using yk [of 0] False by simp
  have Yn: "y ! n = y ! (n - 1) + exp (x ! n)" if n0: "0 < n" and nl: "n < length x" for n
  proof -
    obtain n' where n': "n = Suc n'" using n0 by (cases n) auto
    show ?thesis
      using nl yk [of n] yk [of n'] by (simp add: n')
  qed
  have M0: "multiply_adjoint_jacobian op adjv ! 0 = (\<Sum>k<length x. adjv ! k)"
    using maj(2) by (simp add: N)
  have Mn: "multiply_adjoint_jacobian op adjv ! n = exp (x ! n) * (\<Sum>k = n..<length x. adjv ! k)"
    if "0 < n" "n < length x" for n
    using that maj(3) [of n] ex [of n] by (simp add: N)
  have J: "multiply_adjoint_jacobian op adjv ! n
          = (\<Sum>k<length x. ordered_constrain_jacobian x k n * adjv ! k)" if "n < length x" for n
    using that M0 Mn [of n] by (simp add: ordered_constrain_jacobian_transpose_sum)
  have D: "\<forall>n<length x. \<forall>k<length x.
          ((\<lambda>t. fst (ordered_constrain_apply (x[n := t])) ! k)
             has_real_derivative ordered_constrain_jacobian x k n) (at (x ! n))"
    using ordered_constrain_partial_derivative by blast
  show ?thesis
    unfolding res prod.case using ly Y0 Yn maj(1) N M0 Mn J D by auto
qed

theorem ordered_constrain_adjoint_jacobian_witness:
  "case ordered_constrain_apply [0, 0] of (y, op) \<Rightarrow>
     y = [0, 1] \<and> multiply_adjoint_jacobian op [1, 2] = [3, 2]"
proof -
  have u: "[1..<2] = [1::nat]" "[Suc 0..<2] = [Suc 0]"
    by (simp_all add: upt_rec)
  have res: "ordered_constrain_apply [0, 0] = ([0, 1], \<lparr>N = 2, exp_x = [1]\<rparr>)"
    by (simp add: ordered_constrain_apply_def Let_def u ordered_constrain_step_def)
  have m: "multiply_adjoint_jacobian \<lparr>N = 2, exp_x = [1]\<rparr> [1, 2] = [3, 2]"
    by (simp add: multiply_adjoint_jacobian_def Let_def u multiply_adjoint_jacobian_step_def
        numeral_2_eq_2)
  have "length [1, 2 :: real] = length [0, 0 :: real]"
    by simp
  from ordered_constrain_adjoint_jacobian [OF this] show ?thesis
    using m by (simp add: res)
qed

section \<open>Properties of the forward pass\<close>

lemma rows_set_col [simp]: "rows (set_col m j v) = rows m"
  and cols_set_col [simp]: "cols (set_col m j v) = cols m"
  by (simp_all add: set_col_def)

lemma block_bounds:
  fixes r :: nat
  assumes "j < c"
  shows "j * r + r \<le> r * c"
proof -
  have "Suc j \<le> c" using assms by simp
  then have "Suc j * r \<le> c * r" by (rule mult_le_mono1)
  then show ?thesis by (simp add: mult.commute)
qed

lemma wf_set_col:
  assumes "wf_matrix m" and "j < cols m" and "length v = rows m"
  shows "wf_matrix (set_col m j v)"
proof -
  have b: "j * rows m + rows m \<le> rows m * cols m"
    using assms(2) by (rule block_bounds)
  then show ?thesis
    using assms by (simp add: wf_matrix_def set_col_def min_def)
qed

lemma length_col:
  assumes "wf_matrix m" and "j < cols m"
  shows "length (col m j) = rows m"
proof -
  have b: "j * rows m + rows m \<le> rows m * cols m"
    using assms(2) by (rule block_bounds)
  then show ?thesis
    using assms by (simp add: col_def wf_matrix_def)
qed

lemma col_set_col_same:
  assumes "wf_matrix m" and "j < cols m" and "length v = rows m"
  shows "col (set_col m j v) j = v"
proof -
  have b: "j * rows m + rows m \<le> rows m * cols m"
    using assms(2) by (rule block_bounds)
  then have "length (take (j * rows m) (coeffs m)) = j * rows m"
    using assms(1) by (simp add: wf_matrix_def)
  then show ?thesis
    using assms(3) by (simp add: col_def set_col_def)
qed

lemma col_nth:
  assumes "wf_matrix m" and "j < cols m" and "i < rows m"
  shows "col m j ! i = coeffs m ! (j * rows m + i)"
proof -
  have b: "j * rows m + rows m \<le> rows m * cols m"
    using assms(2) by (rule block_bounds)
  then show ?thesis
    using assms by (simp add: col_def wf_matrix_def)
qed

lemma col_set_col_other:
  assumes "wf_matrix m" and "j < cols m" and "length v = rows m" and "k < cols m" and "k \<noteq> j"
  shows "col (set_col m j v) k = col m k"
proof (rule nth_equalityI)
  have wf': "wf_matrix (set_col m j v)"
    using assms by (intro wf_set_col)
  show "length (col (set_col m j v) k) = length (col m k)"
    using assms wf' by (simp add: length_col)
  fix i assume "i < length (col (set_col m j v) k)"
  then have i: "i < rows m"
    using assms wf' by (simp add: length_col)
  have bj: "j * rows m + rows m \<le> rows m * cols m"
    using assms(2) by (rule block_bounds)
  have lt: "length (take (j * rows m) (coeffs m)) = j * rows m"
    using bj assms(1) by (simp add: wf_matrix_def)
  have "col (set_col m j v) k ! i = coeffs (set_col m j v) ! (k * rows m + i)"
    using col_nth [OF wf', of k i] assms i by simp
  also have "\<dots> = coeffs m ! (k * rows m + i)"
  proof (cases "k < j")
    case True
    then have "Suc k \<le> j" by simp
    then have "Suc k * rows m \<le> j * rows m" by (rule mult_le_mono1)
    then have "k * rows m + i < j * rows m" using i by simp
    then show ?thesis
      using lt by (simp add: set_col_def nth_append)
  next
    case False
    then have "Suc j \<le> k" using assms(5) by simp
    then have le: "Suc j * rows m \<le> k * rows m" by (rule mult_le_mono1)
    then have ge: "\<not> k * rows m + i < j * rows m" by simp
    have ge2: "\<not> k * rows m + i - j * rows m < rows m"
      using le by simp
    have idx: "Suc j * rows m + (k * rows m + i - j * rows m - rows m) = k * rows m + i"
      using le by simp
    have "Suc j * rows m \<le> length (coeffs m)"
      using bj assms(1) by (simp add: wf_matrix_def add.commute)
    then show ?thesis
      using lt ge ge2 assms(3) idx by (simp add: set_col_def nth_append)
  qed
  also have "\<dots> = col m k ! i"
    using col_nth [OF assms(1,4) i] by simp
  finally show "col (set_col m j v) k ! i = col m k ! i" .
qed

text \<open>One step of the forward loop, spelled out.\<close>

lemma hmm_forward_step_cols:
  assumes wf: "wf_matrix a" and n: "Suc n < cols a" and lg: "cols Gamma = rows a"
    and lo: "wf_matrix omegas" "rows omegas = rows a" "cols omegas = cols a"
  defines "u \<equiv> cwiseProduct (col omegas (Suc n)) (transpose_times_vec Gamma (col a n))"
  shows "case hmm_forward_step Gamma omegas n (a, l) of (a', l') \<Rightarrow>
           wf_matrix a' \<and> rows a' = rows a \<and> cols a' = cols a
           \<and> col a' (Suc n) = vec_div u (maxCoeff u)
           \<and> (\<forall>k<cols a. k \<noteq> Suc n \<longrightarrow> col a' k = col a k)
           \<and> l' = l[Suc n := ln (maxCoeff u) + l ! n]"
proof -
  have lu: "length u = rows a"
    using lo n lg by (simp add: u_def cwiseProduct_def transpose_times_vec_def length_col)
  define a1 where "a1 = set_col a (Suc n) u"
  have wf1: "wf_matrix a1" and d1: "rows a1 = rows a" "cols a1 = cols a"
    using wf n lu by (simp_all add: a1_def wf_set_col)
  have c1: "col a1 (Suc n) = u"
    using wf n lu by (simp add: a1_def col_set_col_same)
  define a2 where "a2 = set_col a1 (Suc n) (vec_div u (maxCoeff u))"
  have lv: "length (vec_div u (maxCoeff u)) = rows a1"
    using lu d1 by (simp add: vec_div_def)
  have wf2: "wf_matrix a2" and d2: "rows a2 = rows a" "cols a2 = cols a"
    using wf1 n lv d1 by (simp_all add: a2_def wf_set_col)
  have c2: "col a2 (Suc n) = vec_div u (maxCoeff u)"
    using wf1 n lv d1 by (simp add: a2_def col_set_col_same)
  have other: "col a2 k = col a k" if "k < cols a" "k \<noteq> Suc n" for k
  proof -
    have "col a2 k = col a1 k"
      unfolding a2_def using wf1 n lv d1 that by (intro col_set_col_other) simp_all
    also have "\<dots> = col a k"
      unfolding a1_def using wf n lu that by (intro col_set_col_other) simp_all
    finally show ?thesis .
  qed
  have step: "hmm_forward_step Gamma omegas n (a, l) = (a2, l[Suc n := ln (maxCoeff u) + l ! n])"
    by (simp add: hmm_forward_step_def Let_def a2_def a1_def [symmetric] c1 u_def [symmetric])
  show ?thesis
    unfolding step prod.case using wf2 d2 c2 other by blast
qed

lemma hmm_forward_fold:
  assumes wf: "wf_matrix a0" and m: "m < cols a0" and lg: "cols Gamma = rows a0"
    and lo: "wf_matrix omegas" "rows omegas = rows a0" "cols omegas = cols a0"
    and ll: "length l0 = cols a0"
  shows "case fold (hmm_forward_step Gamma omegas) [0..<m] (a0, l0) of (a, l) \<Rightarrow>
           wf_matrix a \<and> rows a = rows a0 \<and> cols a = cols a0 \<and> length l = length l0
           \<and> col a 0 = col a0 0 \<and> l ! 0 = l0 ! 0
           \<and> (\<forall>n<m. col a (Suc n)
                     = vec_div (cwiseProduct (col omegas (Suc n)) (transpose_times_vec Gamma (col a n)))
                         (maxCoeff (cwiseProduct (col omegas (Suc n))
                            (transpose_times_vec Gamma (col a n))))
                   \<and> l ! Suc n
                     = ln (maxCoeff (cwiseProduct (col omegas (Suc n))
                            (transpose_times_vec Gamma (col a n)))) + l ! n)"
  using m
proof (induction m)
  case 0
  then show ?case using wf by simp
next
  case (Suc m)
  let ?U = "\<lambda>a n. cwiseProduct (col omegas (Suc n)) (transpose_times_vec Gamma (col a n))"
  obtain a l where f: "fold (hmm_forward_step Gamma omegas) [0..<m] (a0, l0) = (a, l)"
    by (cases "fold (hmm_forward_step Gamma omegas) [0..<m] (a0, l0)")
  have m: "m < cols a0" using Suc.prems by simp
  from Suc.IH [OF m] f
  have wfa: "wf_matrix a" and da: "rows a = rows a0" "cols a = cols a0" and la: "length l = length l0"
    and c0: "col a 0 = col a0 0" and l0: "l ! 0 = l0 ! 0"
    and rec: "\<And>n. n < m \<Longrightarrow> col a (Suc n) = vec_div (?U a n) (maxCoeff (?U a n))
                \<and> l ! Suc n = ln (maxCoeff (?U a n)) + l ! n"
    by auto
  obtain a' l' where st: "hmm_forward_step Gamma omegas m (a, l) = (a', l')"
    by (cases "hmm_forward_step Gamma omegas m (a, l)")
  have "case hmm_forward_step Gamma omegas m (a, l) of (a', l') \<Rightarrow>
           wf_matrix a' \<and> rows a' = rows a \<and> cols a' = cols a
           \<and> col a' (Suc m) = vec_div (?U a m) (maxCoeff (?U a m))
           \<and> (\<forall>k<cols a. k \<noteq> Suc m \<longrightarrow> col a' k = col a k)
           \<and> l' = l[Suc m := ln (maxCoeff (?U a m)) + l ! m]"
    using wfa Suc.prems lg lo da by (intro hmm_forward_step_cols) simp_all
  with st have wf': "wf_matrix a'" and d': "rows a' = rows a0" "cols a' = cols a0"
    and cm: "col a' (Suc m) = vec_div (?U a m) (maxCoeff (?U a m))"
    and other: "\<And>k. k < cols a0 \<Longrightarrow> k \<noteq> Suc m \<Longrightarrow> col a' k = col a k"
    and l': "l' = l[Suc m := ln (maxCoeff (?U a m)) + l ! m]"
    using da by auto
  have fold': "fold (hmm_forward_step Gamma omegas) [0..<Suc m] (a0, l0) = (a', l')"
    by (simp add: f st)
  have len: "length l' = length l0"
    by (simp add: l' la)
  have c0': "col a' 0 = col a0 0"
    using other [of 0] Suc.prems c0 by simp
  have l0': "l' ! 0 = l0 ! 0"
    by (simp add: l' l0)
  have sm: "Suc m < length l"
    using Suc.prems la ll by simp
  have rec': "col a' (Suc n) = vec_div (?U a' n) (maxCoeff (?U a' n))
                \<and> l' ! Suc n = ln (maxCoeff (?U a' n)) + l' ! n" if n: "n < Suc m" for n
  proof (cases "n = m")
    case True
    have "col a' m = col a m"
      using other [of m] m by simp
    then show ?thesis
      using True cm sm by (simp add: l')
  next
    case False
    then have nm: "n < m" using n by simp
    have "col a' (Suc n) = col a (Suc n)" "col a' n = col a n"
      using other [of "Suc n"] other [of n] nm Suc.prems by simp_all
    then show ?thesis
      using rec [OF nm] nm by (simp add: l')
  qed
  show ?case
    unfolding fold' prod.case using wf' d' len c0' l0' rec' by blast
qed

lemma wf_mat_exp [simp]: "wf_matrix (mat_exp m) = wf_matrix m"
  and rows_mat_exp [simp]: "rows (mat_exp m) = rows m"
  and cols_mat_exp [simp]: "cols (mat_exp m) = cols m"
  by (simp_all add: mat_exp_def wf_matrix_def)

lemma hmm_forward_pass_recurrences:
  assumes "wf_matrix log_omegas" and "wf_matrix alphas"
    and "rows alphas = rows log_omegas" and "cols alphas = cols log_omegas"
    and "length alpha_log_norms = cols log_omegas"
    and "length rho = rows log_omegas" and "cols Gamma = rows log_omegas"
    and "0 < cols log_omegas"
  shows "\<exists>v a l.
      hmm_marginal_lpdf_internal log_omegas Gamma rho alphas alpha_log_norms
        = Some (v, a, l, mat_exp log_omegas)
    \<and> (let u = cwiseProduct (col (mat_exp log_omegas) 0) rho
       in col a 0 = vec_div u (maxCoeff u) \<and> l ! 0 = ln (maxCoeff u))
    \<and> (\<forall>n. 0 < n \<and> n < cols log_omegas \<longrightarrow>
         (let u = cwiseProduct (col (mat_exp log_omegas) n)
                    (transpose_times_vec Gamma (col a (n - 1)))
          in col a n = vec_div u (maxCoeff u) \<and> l ! n = ln (maxCoeff u) + l ! (n - 1)))
    \<and> v = ln (sum_list (col a (cols log_omegas - 1))) + l ! (cols log_omegas - 1)"
proof -
  define omegas where "omegas = mat_exp log_omegas"
  define T where "T = cols log_omegas - 1"
  define u0 where "u0 = cwiseProduct (col omegas 0) rho"
  define a1 where "a1 = set_col alphas 0 u0"
  define a2 where "a2 = set_col a1 0 (vec_div u0 (maxCoeff u0))"
  define l1 where "l1 = alpha_log_norms[0 := ln (maxCoeff u0)]"
  have c0: "0 < cols alphas" using assms by simp
  have lu0: "length u0 = rows alphas"
    using assms by (simp add: u0_def omegas_def cwiseProduct_def length_col)
  have wf1: "wf_matrix a1" and d1: "rows a1 = rows alphas" "cols a1 = cols alphas"
    using assms(2) c0 lu0 by (simp_all add: a1_def wf_set_col)
  have c1: "col a1 0 = u0"
    using assms(2) c0 lu0 by (simp add: a1_def col_set_col_same)
  have lv: "length (vec_div u0 (maxCoeff u0)) = rows a1"
    using lu0 d1 by (simp add: vec_div_def)
  have wf2: "wf_matrix a2" and d2: "rows a2 = rows alphas" "cols a2 = cols alphas"
    using wf1 c0 lv d1 by (simp_all add: a2_def wf_set_col)
  have c2: "col a2 0 = vec_div u0 (maxCoeff u0)"
    using wf1 c0 lv d1 by (simp add: a2_def col_set_col_same)
  obtain a l where f: "fold (hmm_forward_step Gamma omegas) [0..<T] (a2, l1) = (a, l)"
    by (cases "fold (hmm_forward_step Gamma omegas) [0..<T] (a2, l1)")
  have "case fold (hmm_forward_step Gamma omegas) [0..<T] (a2, l1) of (a, l) \<Rightarrow>
           wf_matrix a \<and> rows a = rows a2 \<and> cols a = cols a2 \<and> length l = length l1
           \<and> col a 0 = col a2 0 \<and> l ! 0 = l1 ! 0
           \<and> (\<forall>n<T. col a (Suc n)
                     = vec_div (cwiseProduct (col omegas (Suc n)) (transpose_times_vec Gamma (col a n)))
                         (maxCoeff (cwiseProduct (col omegas (Suc n))
                            (transpose_times_vec Gamma (col a n))))
                   \<and> l ! Suc n
                     = ln (maxCoeff (cwiseProduct (col omegas (Suc n))
                            (transpose_times_vec Gamma (col a n)))) + l ! n)"
    using wf2 d2 assms by (intro hmm_forward_fold) (simp_all add: T_def omegas_def l1_def)
  with f have A0: "col a 0 = col a2 0" and L0: "l ! 0 = l1 ! 0"
    and rec: "\<And>n. n < T \<Longrightarrow> col a (Suc n)
                     = vec_div (cwiseProduct (col omegas (Suc n)) (transpose_times_vec Gamma (col a n)))
                         (maxCoeff (cwiseProduct (col omegas (Suc n))
                            (transpose_times_vec Gamma (col a n))))
                   \<and> l ! Suc n
                     = ln (maxCoeff (cwiseProduct (col omegas (Suc n))
                            (transpose_times_vec Gamma (col a n)))) + l ! n"
    by auto
  have nt: "int (cols log_omegas) - 1 = int T" "nat (int T) = T"
    using assms(8) by (simp_all add: T_def)
  have res: "hmm_marginal_lpdf_internal log_omegas Gamma rho alphas alpha_log_norms
      = Some (ln (sum_list (col a T)) + l ! T, a, l, omegas)"
    unfolding hmm_marginal_lpdf_internal_def Let_def nt
    by (simp add: omegas_def [symmetric] u0_def [symmetric] a1_def [symmetric] c1
        a2_def [symmetric] l1_def [symmetric] f)
  have P0: "col a 0 = vec_div u0 (maxCoeff u0) \<and> l ! 0 = ln (maxCoeff u0)"
    using A0 L0 c2 assms(5,8) by (simp add: l1_def)
  have Pn: "col a n = vec_div (cwiseProduct (col omegas n) (transpose_times_vec Gamma (col a (n - 1))))
                (maxCoeff (cwiseProduct (col omegas n) (transpose_times_vec Gamma (col a (n - 1)))))
          \<and> l ! n = ln (maxCoeff (cwiseProduct (col omegas n)
                (transpose_times_vec Gamma (col a (n - 1))))) + l ! (n - 1)"
    if n0: "0 < n" and nc: "n < cols log_omegas" for n
  proof -
    obtain n' where n': "n = Suc n'" using n0 by (cases n) auto
    have "n' < T" using nc by (simp add: n' T_def)
    from rec [OF this] show ?thesis by (simp add: n')
  qed
  show ?thesis
    unfolding res Let_def using P0 Pn
    by (auto simp: omegas_def u0_def T_def)
qed

text \<open>
  C1. On buffers of the right sizes the forward pass returns, and with \<open>omegas\<close> the
  elementwise exponential of \<open>log_omegas\<close>: column 0 of \<open>alphas\<close> is
  \<open>omegas.col(0) \<odot> rho\<close> divided by its largest coefficient, and
  \<open>alpha_log_norms(0)\<close> is the logarithm of that divisor; for \<open>n > 0\<close>, column \<open>n\<close> is
  \<open>omegas.col(n) \<odot> (Gamma\<^sup>T alphas.col(n - 1))\<close> divided by its largest coefficient, and
  \<open>alpha_log_norms(n)\<close> is the logarithm of that divisor plus \<open>alpha_log_norms(n - 1)\<close>;
  the value returned is the logarithm of the sum of the last column plus the last
  log-normalizer.
\<close>

theorem hmm_forward_pass:
  assumes "wf_matrix log_omegas" and "wf_matrix alphas"
    and "rows alphas = rows log_omegas" and "cols alphas = cols log_omegas"
    and "length alpha_log_norms = cols log_omegas"
    and "length rho = rows log_omegas" and "cols Gamma = rows log_omegas"
    and "0 < cols log_omegas"
  shows "\<exists>v a l.
      hmm_marginal_lpdf_internal log_omegas Gamma rho alphas alpha_log_norms
        = Some (v, a, l, mat_exp log_omegas)
    \<and> (let u = cwiseProduct (col (mat_exp log_omegas) 0) rho
       in col a 0 = vec_div u (maxCoeff u) \<and> l ! 0 = ln (maxCoeff u))
    \<and> (\<forall>n. 0 < n \<and> n < cols log_omegas \<longrightarrow>
         (let u = cwiseProduct (col (mat_exp log_omegas) n)
                    (transpose_times_vec Gamma (col a (n - 1)))
          in col a n = vec_div u (maxCoeff u) \<and> l ! n = ln (maxCoeff u) + l ! (n - 1)))
    \<and> v = ln (sum_list (col a (cols log_omegas - 1))) + l ! (cols log_omegas - 1)"
  using assms by (rule hmm_forward_pass_recurrences)

theorem hmm_forward_pass_witness:
  "\<exists>v a l.
      hmm_marginal_lpdf_internal
        \<lparr>rows = 2, cols = 3, coeffs = [0, 0, 0, 0, 0, 0]\<rparr>
        \<lparr>rows = 2, cols = 2, coeffs = [9 / 10, 2 / 10, 1 / 10, 8 / 10]\<rparr>
        [1 / 2, 1 / 2]
        \<lparr>rows = 2, cols = 3, coeffs = [0, 0, 0, 0, 0, 0]\<rparr>
        [0, 0, 0]
      = Some (v, a, l, \<lparr>rows = 2, cols = 3, coeffs = [1, 1, 1, 1, 1, 1]\<rparr>)
    \<and> col a 0 = [1, 1] \<and> l ! 0 = ln (1 / 2)
    \<and> col a 1 = [1, 9 / 11] \<and> l ! 1 = ln (11 / 10) + l ! 0
    \<and> v = ln (sum_list (col a 2)) + l ! 2"
proof -
  define lo :: "real matrix" where "lo = \<lparr>rows = 2, cols = 3, coeffs = [0, 0, 0, 0, 0, 0]\<rparr>"
  define G :: "real matrix" where
    "G = \<lparr>rows = 2, cols = 2, coeffs = [9 / 10, 2 / 10, 1 / 10, 8 / 10]\<rparr>"
  define rho :: "real list" where "rho = [1 / 2, 1 / 2]"
  define l0 :: "real list" where "l0 = [0, 0, 0]"
  have om: "mat_exp lo = \<lparr>rows = 2, cols = 3, coeffs = [1, 1, 1, 1, 1, 1]\<rparr>"
    by (simp add: lo_def mat_exp_def)
  have h: "wf_matrix lo" "rows lo = rows lo" "cols lo = cols lo" "length l0 = cols lo"
    "length rho = rows lo" "cols G = rows lo" "0 < cols lo"
    by (simp_all add: lo_def G_def rho_def l0_def wf_matrix_def)
  from hmm_forward_pass [OF h(1) h(1) h(2-7)]
  obtain v a l where res: "hmm_marginal_lpdf_internal lo G rho lo l0 = Some (v, a, l, mat_exp lo)"
    and P0: "let u = cwiseProduct (col (mat_exp lo) 0) rho
       in col a 0 = vec_div u (maxCoeff u) \<and> l ! 0 = ln (maxCoeff u)"
    and Pn: "\<And>n. 0 < n \<Longrightarrow> n < cols lo \<Longrightarrow>
         (let u = cwiseProduct (col (mat_exp lo) n) (transpose_times_vec G (col a (n - 1)))
          in col a n = vec_div u (maxCoeff u) \<and> l ! n = ln (maxCoeff u) + l ! (n - 1))"
    and V: "v = ln (sum_list (col a (cols lo - 1))) + l ! (cols lo - 1)"
    by blast
  have c0: "col (mat_exp lo) 0 = [1, 1]" and c1: "col (mat_exp lo) 1 = [1, 1]"
    unfolding om by (simp_all add: col_def)
  have u0: "cwiseProduct [1, 1] rho = [1 / 2, 1 / 2]"
    by (simp add: cwiseProduct_def rho_def)
  have m0: "maxCoeff [1 / 2, 1 / 2] = 1 / 2"
    by (simp add: maxCoeff_def)
  have A0: "col a 0 = [1, 1]" and L0: "l ! 0 = ln (1 / 2)"
    using P0 unfolding c0 u0 m0 Let_def by (simp_all add: vec_div_def)
  have t1: "transpose_times_vec G [1, 1] = [11 / 10, 9 / 10]"
    by (simp add: transpose_times_vec_def G_def coeff_def upt_rec lessThan_Suc numeral_2_eq_2)
  have u1: "cwiseProduct [1, 1] [11 / 10, 9 / 10] = [11 / 10, 9 / 10]"
    by (simp add: cwiseProduct_def)
  have m1: "maxCoeff [11 / 10, 9 / 10] = 11 / 10"
    by (simp add: maxCoeff_def)
  have "1 < cols lo" by (simp add: lo_def)
  from Pn [of 1, OF _ this]
  have A1: "col a 1 = [1, 9 / 11]" and L1: "l ! 1 = ln (11 / 10) + l ! 0"
    unfolding c1 A0 Let_def by (simp_all add: A0 t1 u1 m1 vec_div_def)
  have V': "v = ln (sum_list (col a 2)) + l ! 2"
    using V by (simp add: lo_def)
  have "\<exists>v a l. hmm_marginal_lpdf_internal lo G rho lo l0 = Some (v, a, l, mat_exp lo)
    \<and> col a 0 = [1, 1] \<and> l ! 0 = ln (1 / 2)
    \<and> col a 1 = [1, 9 / 11] \<and> l ! 1 = ln (11 / 10) + l ! 0
    \<and> v = ln (sum_list (col a 2)) + l ! 2"
    using res A0 L0 A1 L1 V' by blast
  then show ?thesis
    unfolding om unfolding lo_def G_def rho_def l0_def .
qed

section \<open>Properties of the adjoint recursion\<close>

lemma hmm_kappa_fold:
  assumes "m \<le> t" and "length k0 = Suc t" and "length kl0 = Suc t" and "length g0 = Suc t"
  shows "case fold (hmm_kappa_step G omegas aln nn) (rev [m..<t]) (k0, kl0, g0) of (k, kl, g) \<Rightarrow>
           length k = Suc t \<and> length kl = Suc t \<and> length g = Suc t
           \<and> (\<forall>n. n < m \<or> n = t \<longrightarrow> k ! n = k0 ! n \<and> kl ! n = kl0 ! n \<and> g ! n = g0 ! n)
           \<and> (\<forall>n. m \<le> n \<and> n < t \<longrightarrow>
                 k ! n = vec_div (times_vec G (cwiseProduct (col omegas (n + 2)) (k ! (n + 1))))
                           (maxCoeff (times_vec G (cwiseProduct (col omegas (n + 2)) (k ! (n + 1)))))
               \<and> kl ! n = ln (maxCoeff (times_vec G (cwiseProduct (col omegas (n + 2)) (k ! (n + 1)))))
                           + kl ! (n + 1)
               \<and> g ! n = exp (aln ! n + kl ! n - nn))"
  using assms(1)
proof (induction m rule: inc_induct)
  case base
  then show ?case using assms by auto
next
  case (step m)
  let ?U = "\<lambda>k n. times_vec G (cwiseProduct (col omegas (n + 2)) (k ! (n + 1)))"
  obtain k kl g where f: "fold (hmm_kappa_step G omegas aln nn) (rev [Suc m..<t]) (k0, kl0, g0) = (k, kl, g)"
    by (cases "fold (hmm_kappa_step G omegas aln nn) (rev [Suc m..<t]) (k0, kl0, g0)")
  from step.IH f
  have len: "length k = Suc t" "length kl = Suc t" "length g = Suc t"
    and old: "\<And>n. n < Suc m \<or> n = t \<Longrightarrow> k ! n = k0 ! n \<and> kl ! n = kl0 ! n \<and> g ! n = g0 ! n"
    and rec: "\<And>n. Suc m \<le> n \<Longrightarrow> n < t \<Longrightarrow>
                 k ! n = vec_div (?U k n) (maxCoeff (?U k n))
               \<and> kl ! n = ln (maxCoeff (?U k n)) + kl ! (n + 1)
               \<and> g ! n = exp (aln ! n + kl ! n - nn)"
    by auto
  have upt: "rev [m..<t] = rev [Suc m..<t] @ [m]"
    using step.hyps by (simp add: upt_conv_Cons)
  have mt: "m < Suc t" using step.hyps by simp
  define k' where "k' = k[m := vec_div (?U k m) (maxCoeff (?U k m))]"
  define kl' where "kl' = kl[m := ln (maxCoeff (?U k m)) + kl ! (m + 1)]"
  define g' where "g' = g[m := exp (aln ! m + kl' ! m - nn)]"
  have st: "fold (hmm_kappa_step G omegas aln nn) (rev [m..<t]) (k0, kl0, g0) = (k', kl', g')"
    using mt len
    by (simp only: upt fold_append o_apply f)
       (simp add: hmm_kappa_step_def Let_def k'_def kl'_def g'_def)
  have L: "length k' = Suc t" "length kl' = Suc t" "length g' = Suc t"
    using len by (simp_all add: k'_def kl'_def g'_def)
  have O: "\<forall>n. n < m \<or> n = t \<longrightarrow> k' ! n = k0 ! n \<and> kl' ! n = kl0 ! n \<and> g' ! n = g0 ! n"
    using old step.hyps by (auto simp: k'_def kl'_def g'_def)
  have R: "k' ! n = vec_div (?U k' n) (maxCoeff (?U k' n))
               \<and> kl' ! n = ln (maxCoeff (?U k' n)) + kl' ! (n + 1)
               \<and> g' ! n = exp (aln ! n + kl' ! n - nn)" if n: "m \<le> n" "n < t" for n
  proof (cases "n = m")
    case True
    then show ?thesis
      using mt len by (simp add: k'_def kl'_def g'_def)
  next
    case False
    then have "Suc m \<le> n" using n by simp
    from rec [OF this n(2)] False show ?thesis
      using \<open>Suc m \<le> n\<close> by (simp add: k'_def kl'_def g'_def)
  qed
  show ?case
    unfolding st prod.case using L O R by blast
qed

lemma hmm_kappa_fold_independent:
  "fst (fold (hmm_kappa_step G omegas aln nn) js (k, kl, g))
     = fst (fold (hmm_kappa_step G omegas aln' nn') js (k, kl, g'))
   \<and> fst (snd (fold (hmm_kappa_step G omegas aln nn) js (k, kl, g)))
     = fst (snd (fold (hmm_kappa_step G omegas aln' nn') js (k, kl, g')))"
proof (induction js arbitrary: k kl g g')
  case Nil
  then show ?case by simp
next
  case (Cons j js)
  obtain k1 kl1 g1 where s1: "hmm_kappa_step G omegas aln nn j (k, kl, g) = (k1, kl1, g1)"
    by (cases "hmm_kappa_step G omegas aln nn j (k, kl, g)")
  obtain k2 kl2 g2 where s2: "hmm_kappa_step G omegas aln' nn' j (k, kl, g') = (k2, kl2, g2)"
    by (cases "hmm_kappa_step G omegas aln' nn' j (k, kl, g')")
  have "k1 = k2" "kl1 = kl2"
    using s1 s2 by (auto simp: hmm_kappa_step_def Let_def)
  then show ?case
    using Cons.IH [of k2 kl2 g1 g2] by (simp add: s1 s2)
qed

text \<open>
  The recurrences of the \<open>kappa\<close> block, for any log-normalizers it is run on. With at
  least one transition \<open>kappa\<close> starts at the last step with a vector of ones and
  log-normalizer 0 and runs backward to step 0.
\<close>

lemma hmm_kappa_recursion_recurrences:
  assumes "0 < n_transitions"
  shows "case hmm_kappa_recursion Gamma_dbl omegas alpha_log_norms n_states n_transitions of
      (kappa, kappa_log_norms, grad_corr) \<Rightarrow>
        length kappa = n_transitions \<and> length kappa_log_norms = n_transitions
      \<and> length grad_corr = n_transitions
      \<and> kappa ! (n_transitions - 1) = Ones n_states
      \<and> kappa_log_norms ! (n_transitions - 1) = 0
      \<and> (\<forall>n. n + 1 < n_transitions \<longrightarrow>
            (let u = times_vec Gamma_dbl (cwiseProduct (col omegas (n + 2)) (kappa ! (n + 1)))
             in kappa ! n = vec_div u (maxCoeff u)
                \<and> kappa_log_norms ! n = ln (maxCoeff u) + kappa_log_norms ! (n + 1)))
      \<and> (\<forall>n<n_transitions.
            grad_corr ! n = exp (alpha_log_norms ! n + kappa_log_norms ! n
                                 - alpha_log_norms ! n_transitions))
      \<and> (\<forall>other_log_norms.
            fst (hmm_kappa_recursion Gamma_dbl omegas other_log_norms n_states n_transitions)
              = kappa
          \<and> fst (snd (hmm_kappa_recursion Gamma_dbl omegas other_log_norms n_states
                        n_transitions)) = kappa_log_norms)"
proof -
  obtain t where t: "n_transitions = Suc t"
    using assms by (cases n_transitions) auto
  have tm: "n_transitions - Suc 0 = t" and tl: "t < n_transitions"
    using t by simp_all
  define nn where "nn = alpha_log_norms ! n_transitions"
  define k0 where "k0 = (replicate n_transitions ([]::real list))[t := Ones n_states]"
  define kl0 where "kl0 = (replicate n_transitions (0::real))[t := 0]"
  define g0 where "g0 aln = (replicate n_transitions (0::real))[t
      := exp (aln ! t - aln ! n_transitions)]" for aln :: "real list"
  have def: "hmm_kappa_recursion Gamma_dbl omegas aln n_states n_transitions
      = fold (hmm_kappa_step Gamma_dbl omegas aln (aln ! n_transitions)) (rev [0..<t])
          (k0, kl0, g0 aln)" for aln
    using assms by (simp add: hmm_kappa_recursion_def Let_def tm k0_def kl0_def g0_def)
  obtain k kl g where f: "fold (hmm_kappa_step Gamma_dbl omegas alpha_log_norms nn) (rev [0..<t])
      (k0, kl0, g0 alpha_log_norms) = (k, kl, g)"
    by (cases "fold (hmm_kappa_step Gamma_dbl omegas alpha_log_norms nn) (rev [0..<t])
      (k0, kl0, g0 alpha_log_norms)")
  have "case fold (hmm_kappa_step Gamma_dbl omegas alpha_log_norms nn) (rev [0..<t])
            (k0, kl0, g0 alpha_log_norms) of (k, kl, g) \<Rightarrow>
           length k = Suc t \<and> length kl = Suc t \<and> length g = Suc t
           \<and> (\<forall>n. n < 0 \<or> n = t \<longrightarrow> k ! n = k0 ! n \<and> kl ! n = kl0 ! n
                   \<and> g ! n = g0 alpha_log_norms ! n)
           \<and> (\<forall>n. 0 \<le> n \<and> n < t \<longrightarrow>
                 k ! n = vec_div (times_vec Gamma_dbl (cwiseProduct (col omegas (n + 2)) (k ! (n + 1))))
                           (maxCoeff (times_vec Gamma_dbl (cwiseProduct (col omegas (n + 2)) (k ! (n + 1)))))
               \<and> kl ! n = ln (maxCoeff (times_vec Gamma_dbl (cwiseProduct (col omegas (n + 2)) (k ! (n + 1)))))
                           + kl ! (n + 1)
               \<and> g ! n = exp (alpha_log_norms ! n + kl ! n - nn))"
  proof (intro hmm_kappa_fold)
    show "length k0 = Suc t" "length kl0 = Suc t" "length (g0 alpha_log_norms) = Suc t"
      by (simp_all add: k0_def kl0_def g0_def flip: t)
  qed simp
  with f have len: "length k = Suc t" "length kl = Suc t" "length g = Suc t"
    and last: "k ! t = k0 ! t" "kl ! t = kl0 ! t" "g ! t = g0 alpha_log_norms ! t"
    and rec: "\<And>n. n < t \<Longrightarrow>
                 k ! n = vec_div (times_vec Gamma_dbl (cwiseProduct (col omegas (n + 2)) (k ! (n + 1))))
                           (maxCoeff (times_vec Gamma_dbl (cwiseProduct (col omegas (n + 2)) (k ! (n + 1)))))
               \<and> kl ! n = ln (maxCoeff (times_vec Gamma_dbl (cwiseProduct (col omegas (n + 2)) (k ! (n + 1)))))
                           + kl ! (n + 1)
               \<and> g ! n = exp (alpha_log_norms ! n + kl ! n - nn)"
    by auto
  have res: "hmm_kappa_recursion Gamma_dbl omegas alpha_log_norms n_states n_transitions = (k, kl, g)"
    using f by (simp add: def nn_def)
  have K: "k ! t = Ones n_states" and KL: "kl ! t = 0"
    using last tl by (simp_all add: k0_def kl0_def)
  have GC: "g ! n = exp (alpha_log_norms ! n + kl ! n - alpha_log_norms ! n_transitions)"
    if "n < n_transitions" for n
  proof (cases "n = t")
    case True
    then show ?thesis
      using last(3) KL tl by (simp add: g0_def)
  next
    case False
    then have "n < t" using that t by simp
    from rec [OF this] show ?thesis by (simp add: nn_def)
  qed
  have IND: "fst (hmm_kappa_recursion Gamma_dbl omegas other n_states n_transitions) = k
      \<and> fst (snd (hmm_kappa_recursion Gamma_dbl omegas other n_states n_transitions)) = kl"
    for other
    using hmm_kappa_fold_independent [of Gamma_dbl omegas other "other ! n_transitions"
        "rev [0..<t]" k0 kl0 "g0 other" alpha_log_norms nn "g0 alpha_log_norms"]
    by (simp add: def f)
  have REC: "let u = times_vec Gamma_dbl (cwiseProduct (col omegas (n + 2)) (k ! (n + 1)))
             in k ! n = vec_div u (maxCoeff u) \<and> kl ! n = ln (maxCoeff u) + kl ! (n + 1)"
    if "n + 1 < n_transitions" for n
  proof -
    have "n < t" using that t by simp
    from rec [OF this] show ?thesis by (simp add: Let_def)
  qed
  show ?thesis
    unfolding res prod.case using len K KL REC GC IND by (simp add: t)
qed

section \<open>Properties of the argument checks\<close>

lemma take_drop_concat_block:
  assumes "\<forall>xs\<in>set xss. length xs = c" and "i < length xss"
  shows "take c (drop (i * c) (concat xss)) = xss ! i"
  using assms
proof (induction xss arbitrary: i)
  case Nil
  then show ?case by simp
next
  case (Cons x xss)
  show ?case
  proof (cases i)
    case 0
    then show ?thesis using Cons.prems by simp
  next
    case (Suc i')
    then show ?thesis using Cons.prems Cons.IH [of i'] by simp
  qed
qed

lemma col_transpose_mat:
  assumes "i < rows m"
  shows "col (transpose_mat m) i = row m i"
proof -
  let ?xss = "map (\<lambda>i. map (\<lambda>j. coeff m i j) [0..<cols m]) [0..<rows m]"
  have "take (cols m) (drop (i * cols m) (concat ?xss)) = ?xss ! i"
    using assms by (intro take_drop_concat_block) auto
  then show ?thesis
    using assms by (simp add: col_def transpose_mat_def row_def)
qed

lemma check_simplex_rows_Inr:
  "check_simplex_rows tol gt js = Inr () \<longleftrightarrow> (\<forall>i\<in>set js. is_simplex tol (col gt i))"
  by (induction js) (auto simp: check_simplex_def split: sum.splits)

lemma check_simplex_rows_Inl:
  "check_simplex_rows tol gt js = Inl e \<Longrightarrow>
     e = Domain_error ''hmm_marginal_lpdf'' ''Gamma[i, ]''"
  by (induction js) (auto simp: check_simplex_def split: sum.splits if_splits)

lemma check_simplex_rows_cases:
  "check_simplex_rows tol gt js =
     (if \<forall>i\<in>set js. is_simplex tol (col gt i) then Inr ()
      else Inl (Domain_error ''hmm_marginal_lpdf'' ''Gamma[i, ]''))"
proof (cases "check_simplex_rows tol gt js")
  case (Inl e)
  then show ?thesis
    using check_simplex_rows_Inl [OF Inl] check_simplex_rows_Inr [of tol gt js] by auto
next
  case (Inr u)
  then show ?thesis
    using check_simplex_rows_Inr [of tol gt js] by auto
qed

lemma length_row [simp]: "length (row m i) = cols m"
  by (simp add: row_def)

lemma hmm_check_arguments_cases:
  "hmm_check_arguments tol g r k =
     (if rows g \<noteq> cols g then Inl (Domain_error ''hmm_marginal_lpdf'' ''Gamma'')
      else if cols g \<noteq> k then Inl (Invalid_argument ''hmm_marginal_lpdf'' ''Gamma'' [cols g, k])
      else if \<not> (\<forall>i<rows g. is_simplex tol (row g i))
        then Inl (Domain_error ''hmm_marginal_lpdf'' ''Gamma[i, ]'')
      else if length r \<noteq> k then Inl (Invalid_argument ''hmm_marginal_lpdf'' ''rho'' [length r, k])
      else if \<not> is_simplex tol r then Inl (Domain_error ''hmm_marginal_lpdf'' ''rho'')
      else Inr ())"
proof -
  have rowsq: "(\<forall>i\<in>set [0..<cols g]. is_simplex tol (col (transpose_mat g) i))
      \<longleftrightarrow> (\<forall>i<rows g. is_simplex tol (row g i))" if "rows g = cols g"
    using that by (auto simp: col_transpose_mat)
  show ?thesis
  proof (cases "rows g = cols g")
    case True
    show ?thesis
      unfolding hmm_check_arguments_def Let_def check_simplex_rows_cases rowsq [OF True]
      using True
      by (auto simp: check_square_def check_consistent_size_def check_simplex_def)
  next
    case False
    then show ?thesis
      by (simp add: hmm_check_arguments_def check_square_def)
  qed
qed

lemma hmm_marginal_lpdf_internal_None:
  "hmm_marginal_lpdf_internal lo g r a l = None \<longleftrightarrow> cols lo = 0"
  by (auto simp: hmm_marginal_lpdf_internal_def Let_def split: prod.splits)

lemma build_stack:
  "\<exists>ret st'. build lo g r ops v st = (ret, st') \<and> (st' = st \<or> (\<exists>nd. st' = st @ [nd]))"
  by (auto simp: build_def new_vari_def)

text \<open>
  C3. \<open>hmm_marginal_lpdf\<close> checks its arguments first. When \<open>Gamma\<close> is not square,
  when its size is not the number of states, when one of its rows is not a simplex, when the
  size of \<open>rho\<close> is not the number of states or when \<open>rho\<close> is not a simplex, the result
  is the error of the first failing check, which names the function and the argument, and the
  stack is the one the call was made with: nothing was computed or allocated. When all the
  checks pass no error is returned, and with at least one observation the function returns a
  value and adds at most one node to the stack.
\<close>

theorem hmm_marginal_lpdf_preconditions:
  fixes tol :: real and log_omegas Gamma :: mat_operand and rho :: vec_operand and st :: stack
  defines "G \<equiv> value_of_rec_mat st Gamma"
    and "r \<equiv> value_of_rec_vec st rho"
    and "n_states \<equiv> rows (value_of_rec_mat st log_omegas)"
    and "result \<equiv> hmm_marginal_lpdf tol log_omegas Gamma rho st"
  shows "(rows G \<noteq> cols G \<longrightarrow>
            result = Some (Inl (Domain_error ''hmm_marginal_lpdf'' ''Gamma''), st))
    \<and> (rows G = cols G \<and> cols G \<noteq> n_states \<longrightarrow>
            result = Some (Inl (Invalid_argument ''hmm_marginal_lpdf'' ''Gamma''
                                  [cols G, n_states]), st))
    \<and> (rows G = cols G \<and> cols G = n_states \<and> (\<exists>i<rows G. \<not> is_simplex tol (row G i)) \<longrightarrow>
            result = Some (Inl (Domain_error ''hmm_marginal_lpdf'' ''Gamma[i, ]''), st))
    \<and> (rows G = cols G \<and> cols G = n_states \<and> (\<forall>i<rows G. is_simplex tol (row G i))
          \<and> length r \<noteq> n_states \<longrightarrow>
            result = Some (Inl (Invalid_argument ''hmm_marginal_lpdf'' ''rho''
                                  [length r, n_states]), st))
    \<and> (rows G = cols G \<and> cols G = n_states \<and> (\<forall>i<rows G. is_simplex tol (row G i))
          \<and> length r = n_states \<and> \<not> is_simplex tol r \<longrightarrow>
            result = Some (Inl (Domain_error ''hmm_marginal_lpdf'' ''rho''), st))
    \<and> (rows G = cols G \<and> cols G = n_states \<and> (\<forall>i<rows G. is_simplex tol (row G i))
          \<and> length r = n_states \<and> is_simplex tol r \<longrightarrow>
            (\<forall>e s. result \<noteq> Some (Inl e, s))
          \<and> (0 < cols (value_of_rec_mat st log_omegas) \<longrightarrow>
               (\<exists>ret st'. result = Some (Inr ret, st')
                  \<and> (st' = st \<or> (\<exists>nd. st' = st @ [nd])))))"
proof -
  let ?lo = "value_of_rec_mat st log_omegas"
  have fail: "result = Some (Inl e, st)" if "hmm_check_arguments tol G r n_states = Inl e" for e
    using that by (simp add: result_def hmm_marginal_lpdf_def Let_def G_def r_def n_states_def)
  have ok: "(\<forall>e s. result \<noteq> Some (Inl e, s))
          \<and> (0 < cols ?lo \<longrightarrow>
               (\<exists>ret st'. result = Some (Inr ret, st') \<and> (st' = st \<or> (\<exists>nd. st' = st @ [nd]))))"
    if pass: "hmm_check_arguments tol G r n_states = Inr ()"
  proof (cases "cols ?lo = 0")
    case True
    then have "hmm_marginal_lpdf_internal ?lo G r a l = None" for a l
      by (simp add: hmm_marginal_lpdf_internal_None)
    then have "result = None"
      using pass
      by (simp add: result_def hmm_marginal_lpdf_def Let_def G_def r_def n_states_def)
    then show ?thesis using True by simp
  next
    case False
    let ?a = "Zero n_states (nat (int (cols ?lo) - 1 + 1))"
    let ?l = "replicate (nat (int (cols ?lo) - 1 + 1)) (0::real)"
    obtain v a l om where fw: "hmm_marginal_lpdf_internal ?lo G r ?a ?l = Some (v, a, l, om)"
      using False hmm_marginal_lpdf_internal_None [of ?lo G r ?a ?l]
      by (cases "hmm_marginal_lpdf_internal ?lo G r ?a ?l") auto
    let ?ops = "hmm_partials log_omegas Gamma rho ?lo G r v a l om n_states
        (nat (int (cols ?lo) - 1))"
    obtain ret st' where b: "build log_omegas Gamma rho ?ops v st = (ret, st')"
      and s: "st' = st \<or> (\<exists>nd. st' = st @ [nd])"
      using build_stack [of log_omegas Gamma rho ?ops v st] by blast
    have "result = Some (Inr ret, st')"
      using pass fw b
      by (simp add: result_def hmm_marginal_lpdf_def Let_def G_def r_def n_states_def)
    then show ?thesis using s by auto
  qed
  note c = hmm_check_arguments_cases [of tol G r n_states]
  have 1: "result = Some (Inl (Domain_error ''hmm_marginal_lpdf'' ''Gamma''), st)"
    if "rows G \<noteq> cols G"
    using that by (intro fail) (simp add: c)
  have 2: "result = Some (Inl (Invalid_argument ''hmm_marginal_lpdf'' ''Gamma''
                                  [cols G, n_states]), st)"
    if "rows G = cols G \<and> cols G \<noteq> n_states"
    using that by (intro fail) (simp add: c)
  have 3: "result = Some (Inl (Domain_error ''hmm_marginal_lpdf'' ''Gamma[i, ]''), st)"
    if "rows G = cols G \<and> cols G = n_states \<and> (\<exists>i<rows G. \<not> is_simplex tol (row G i))"
  proof -
    have "\<not> (\<forall>i<rows G. is_simplex tol (row G i))" using that by blast
    then show ?thesis using that by (intro fail) (simp add: c)
  qed
  have 4: "result = Some (Inl (Invalid_argument ''hmm_marginal_lpdf'' ''rho''
                                  [length r, n_states]), st)"
    if "rows G = cols G \<and> cols G = n_states \<and> (\<forall>i<rows G. is_simplex tol (row G i))
          \<and> length r \<noteq> n_states"
    using that by (intro fail) (simp add: c)
  have 5: "result = Some (Inl (Domain_error ''hmm_marginal_lpdf'' ''rho''), st)"
    if "rows G = cols G \<and> cols G = n_states \<and> (\<forall>i<rows G. is_simplex tol (row G i))
          \<and> length r = n_states \<and> \<not> is_simplex tol r"
    using that by (intro fail) (simp add: c)
  have 6: "(\<forall>e s. result \<noteq> Some (Inl e, s))
          \<and> (0 < cols ?lo \<longrightarrow>
               (\<exists>ret st'. result = Some (Inr ret, st') \<and> (st' = st \<or> (\<exists>nd. st' = st @ [nd]))))"
    if "rows G = cols G \<and> cols G = n_states \<and> (\<forall>i<rows G. is_simplex tol (row G i))
          \<and> length r = n_states \<and> is_simplex tol r"
    using that by (intro ok) (simp add: c)
  show ?thesis
    using 1 2 3 4 5 6 by blast
qed

theorem hmm_marginal_lpdf_preconditions_witness:
  "hmm_marginal_lpdf (1 / 10 ^ 8)
     (Mat_double \<lparr>rows = 2, cols = 3, coeffs = [0, 0, 0, 0, 0, 0]\<rparr>)
     (Mat_double \<lparr>rows = 2, cols = 2, coeffs = [9 / 10, 2 / 10, 6 / 10, 8 / 10]\<rparr>)
     (Vec_double [1 / 2, 1 / 2]) []
   = Some (Inl (Domain_error ''hmm_marginal_lpdf'' ''Gamma[i, ]''), [])
   \<and> hmm_marginal_lpdf (1 / 10 ^ 8)
     (Mat_double \<lparr>rows = 2, cols = 3, coeffs = [0, 0, 0, 0, 0, 0]\<rparr>)
     (Mat_double \<lparr>rows = 2, cols = 2, coeffs = [9 / 10, 2 / 10, 1 / 10, 8 / 10]\<rparr>)
     (Vec_double [1 / 2, 1 / 4, 1 / 4]) []
   = Some (Inl (Invalid_argument ''hmm_marginal_lpdf'' ''rho'' [3, 2]), [])
   \<and> (\<exists>ret. hmm_marginal_lpdf (1 / 10 ^ 8)
     (Mat_double \<lparr>rows = 2, cols = 3, coeffs = [0, 0, 0, 0, 0, 0]\<rparr>)
     (Mat_double \<lparr>rows = 2, cols = 2, coeffs = [9 / 10, 2 / 10, 1 / 10, 8 / 10]\<rparr>)
     (Vec_double [1 / 2, 1 / 2]) []
   = Some (Inr ret, []))"
proof -
  define tol :: real where "tol = 1 / 10 ^ 8"
  define lo where "lo = Mat_double \<lparr>rows = 2, cols = 3, coeffs = [0, 0, 0, 0, 0, 0]\<rparr>"
  define bad :: "real matrix" where
    "bad = \<lparr>rows = 2, cols = 2, coeffs = [9 / 10, 2 / 10, 6 / 10, 8 / 10]\<rparr>"
  define good :: "real matrix" where
    "good = \<lparr>rows = 2, cols = 2, coeffs = [9 / 10, 2 / 10, 1 / 10, 8 / 10]\<rparr>"
  have tol: "0 \<le> tol" "tol < 1 / 2"
    by (simp_all add: tol_def)
  have u2: "[0..<2] = [0, Suc 0]"
    by (simp add: upt_rec)
  have rb: "row bad 0 = [9 / 10, 6 / 10]"
    by (simp add: row_def bad_def coeff_def u2)
  have rg: "row good 0 = [9 / 10, 1 / 10]" "row good (Suc 0) = [2 / 10, 8 / 10]"
    by (simp_all add: row_def good_def coeff_def u2)
  have nb: "\<not> is_simplex tol (row bad 0)"
    using tol by (simp add: rb is_simplex_def)
  have sg: "is_simplex tol (row good i)" if "i < 2" for i
  proof -
    have "i = 0 \<or> i = Suc 0" using that by auto
    then show ?thesis using tol by (auto simp: rg is_simplex_def)
  qed
  have sr: "is_simplex tol [1 / 2, 1 / 2]"
    using tol by (simp add: is_simplex_def)
  note P = hmm_marginal_lpdf_preconditions
  have A: "hmm_marginal_lpdf tol lo (Mat_double bad) (Vec_double [1 / 2, 1 / 2]) []
      = Some (Inl (Domain_error ''hmm_marginal_lpdf'' ''Gamma[i, ]''), [])"
  proof -
    have "\<exists>i<rows bad. \<not> is_simplex tol (row bad i)"
      using nb by (intro exI [of _ 0]) (simp add: bad_def)
    then show ?thesis
      using P [where st = "[]" and Gamma = "Mat_double bad" and log_omegas = lo and tol = tol
          and rho = "Vec_double [1 / 2, 1 / 2]"]
      by (simp add: bad_def lo_def)
  qed
  have B: "hmm_marginal_lpdf tol lo (Mat_double good) (Vec_double [1 / 2, 1 / 4, 1 / 4]) []
      = Some (Inl (Invalid_argument ''hmm_marginal_lpdf'' ''rho'' [3, 2]), [])"
  proof -
    have "\<forall>i<rows good. is_simplex tol (row good i)"
      using sg by (simp add: good_def)
    then show ?thesis
      using P [where st = "[]" and Gamma = "Mat_double good" and log_omegas = lo and tol = tol
          and rho = "Vec_double [1 / 2, 1 / 4, 1 / 4]"]
      by (simp add: good_def lo_def)
  qed
  have C: "\<exists>ret. hmm_marginal_lpdf tol lo (Mat_double good) (Vec_double [1 / 2, 1 / 2]) []
      = Some (Inr ret, [])"
  proof -
    have "\<forall>i<rows good. is_simplex tol (row good i)"
      using sg by (simp add: good_def)
    then have "\<exists>ret st'. hmm_marginal_lpdf tol lo (Mat_double good) (Vec_double [1 / 2, 1 / 2]) []
        = Some (Inr ret, st') \<and> (st' = [] \<or> (\<exists>nd. st' = [] @ [nd]))"
      using P [where st = "[]" and Gamma = "Mat_double good" and log_omegas = lo and tol = tol
          and rho = "Vec_double [1 / 2, 1 / 2]"] sr
      by (simp add: good_def lo_def)
    then obtain ret st' where
      r: "hmm_marginal_lpdf tol lo (Mat_double good) (Vec_double [1 / 2, 1 / 2]) [] = Some (Inr ret, st')"
      by blast
    have "st' = []"
      using r by (auto simp: hmm_marginal_lpdf_def Let_def build_def lo_def
          split: sum.splits option.splits prod.splits)
    then show ?thesis using r by blast
  qed
  show ?thesis
    using A B C unfolding tol_def lo_def bad_def good_def by blast
qed

section \<open>Constant operands\<close>

lemma hmm_partials_edges:
  "(edge1_partials (hmm_partials log_omegas Gamma rho lo g r v a l om k t) = None
      \<longleftrightarrow> is_constant_all_mat log_omegas)
   \<and> (edge2_partials (hmm_partials log_omegas Gamma rho lo g r v a l om k t) = None
      \<longleftrightarrow> is_constant_all_mat Gamma)
   \<and> (edge3_partials (hmm_partials log_omegas Gamma rho lo g r v a l om k t) = None
      \<longleftrightarrow> is_constant_all_vec rho)"
  by (simp add: hmm_partials_def new_operands_and_partials_def Let_def split: prod.splits)

text \<open>
  C6. A constant operand gets no adjoint and no adjoint-carrying state. The scalar
  variable-constant and constant-variable overloads of \<open>squared_distance\<close> create one
  node that holds the constant as a plain number, and its \<open>chain()\<close> leaves every node
  but the differentiable operand as it was; the vector overloads create one node that holds
  the constant vector as plain numbers, and its \<open>chain()\<close> leaves every node outside the
  differentiable vector as it was. \<open>hmm_marginal_lpdf\<close> has partials for an operand exactly
  when the operand is not constant, and with three constant operands it returns a plain
  number and leaves the stack as it was.
\<close>

theorem constant_operand_skip:
  "(case squared_distance_v_d a b st of (r, st1) \<Rightarrow>
      r = length st \<and> length st1 = Suc (length st)
      \<and> kind (st1 ! r) = Scal_squared_distance_vd a b)
   \<and> (kind (s ! q) = Scal_squared_distance_vd a b \<and> p \<noteq> a \<longrightarrow> chain q s ! p = s ! p)
   \<and> (case squared_distance_d_v b a st of (r, st1) \<Rightarrow>
      r = length st \<and> length st1 = Suc (length st)
      \<and> kind (st1 ! r) = Scal_squared_distance_dv b a)
   \<and> (kind (s ! q) = Scal_squared_distance_dv b a \<and> p \<noteq> a \<longrightarrow> chain q s ! p = s ! p)
   \<and> ((rows v = 1 \<or> cols v = 1) \<and> (rows d = 1 \<or> cols d = 1) \<and> msize v = msize d \<longrightarrow>
        (case squared_distance_mv_md v d st of (res, st1) \<Rightarrow>
           res = Inr (length st) \<and> length st1 = Suc (length st)
           \<and> kind (st1 ! length st)
               = Squared_distance_vd (map (coeff1 v) [0..<msize v])
                   (map (coeff1 d) [0..<msize v]) (msize v))
        \<and> squared_distance_md_mv d v st = squared_distance_mv_md v d st)
   \<and> (kind (s ! q) = Squared_distance_vd v1 v2 n \<and> p \<notin> (\<lambda>i. v1 ! i) ` {..<n} \<longrightarrow>
        chain q s ! p = s ! p)
   \<and> (edge1_partials (hmm_partials log_omegas Gamma rho lo g rh lmd al aln om k t) = None
        \<longleftrightarrow> is_constant_all_mat log_omegas)
   \<and> (edge2_partials (hmm_partials log_omegas Gamma rho lo g rh lmd al aln om k t) = None
        \<longleftrightarrow> is_constant_all_mat Gamma)
   \<and> (edge3_partials (hmm_partials log_omegas Gamma rho lo g rh lmd al aln om k t) = None
        \<longleftrightarrow> is_constant_all_vec rho)
   \<and> (is_constant_all_mat log_omegas \<and> is_constant_all_mat Gamma \<and> is_constant_all_vec rho
        \<and> hmm_marginal_lpdf tol log_omegas Gamma rho st = Some (Inr ret, st')
      \<longrightarrow> st' = st \<and> (\<exists>x. ret = Return_double x))"
proof -
  have A: "case squared_distance_v_d a b st of (r, st1) \<Rightarrow>
      r = length st \<and> length st1 = Suc (length st)
      \<and> kind (st1 ! r) = Scal_squared_distance_vd a b"
    by (simp add: squared_distance_v_d_def scal_squared_distance_vd_vari_def new_vari_def)
  have B: "chain q s ! p = s ! p" if "kind (s ! q) = Scal_squared_distance_vd a b \<and> p \<noteq> a"
    using that by (simp add: chain_def scal_squared_distance_vd_chain_frame)
  have C: "case squared_distance_d_v b a st of (r, st1) \<Rightarrow>
      r = length st \<and> length st1 = Suc (length st)
      \<and> kind (st1 ! r) = Scal_squared_distance_dv b a"
    by (simp add: squared_distance_d_v_def scal_squared_distance_dv_vari_def new_vari_def)
  have D: "chain q s ! p = s ! p" if "kind (s ! q) = Scal_squared_distance_dv b a \<and> p \<noteq> a"
    using that by (simp add: chain_def scal_squared_distance_dv_chain_frame)
  have E: "(case squared_distance_mv_md v d st of (res, st1) \<Rightarrow>
           res = Inr (length st) \<and> length st1 = Suc (length st)
           \<and> kind (st1 ! length st)
               = Squared_distance_vd (map (coeff1 v) [0..<msize v])
                   (map (coeff1 d) [0..<msize v]) (msize v))
        \<and> squared_distance_md_mv d v st = squared_distance_mv_md v d st"
    if "(rows v = 1 \<or> cols v = 1) \<and> (rows d = 1 \<or> cols d = 1) \<and> msize v = msize d"
  proof -
    have "squared_distance_md_mv d v st = squared_distance_mv_md v d st"
      using that
      by (simp add: squared_distance_md_mv_def squared_distance_mv_md_def check_vector_def
          check_matching_sizes_def)
    then show ?thesis
      using that by (simp add: squared_distance_mv_md_ok)
  qed
  have F: "chain q s ! p = s ! p"
    if "kind (s ! q) = Squared_distance_vd v1 v2 n \<and> p \<notin> (\<lambda>i. v1 ! i) ` {..<n}"
    using that by (simp add: chain_def squared_distance_vd_chain_frame)
  note G = hmm_partials_edges [of log_omegas Gamma rho lo g rh lmd al aln om k t]
  have H: "st' = st \<and> (\<exists>x. ret = Return_double x)"
    if "is_constant_all_mat log_omegas \<and> is_constant_all_mat Gamma \<and> is_constant_all_vec rho
        \<and> hmm_marginal_lpdf tol log_omegas Gamma rho st = Some (Inr ret, st')"
    using that
    by (auto simp: hmm_marginal_lpdf_def Let_def build_def
        split: sum.splits option.splits prod.splits)
  show ?thesis
    using A B C D E F G H by blast
qed

theorem constant_operand_skip_witness:
  "chain 1 [\<lparr>val = 3, adj = 0, kind = Leaf\<rparr>,
            \<lparr>val = 4, adj = 1, kind = Scal_squared_distance_vd 0 1\<rparr>]
     = [\<lparr>val = 3, adj = 4, kind = Leaf\<rparr>,
        \<lparr>val = 4, adj = 1, kind = Scal_squared_distance_vd 0 1\<rparr>]
   \<and> edge3_partials
       (hmm_partials (Mat_double \<lparr>rows = 1, cols = 1, coeffs = [0]\<rparr>)
          (Mat_var \<lparr>rows = 1, cols = 1, coeffs = [0]\<rparr>) (Vec_double [1])
          \<lparr>rows = 1, cols = 1, coeffs = [0]\<rparr> \<lparr>rows = 1, cols = 1, coeffs = [1]\<rparr> [1]
          0 \<lparr>rows = 1, cols = 1, coeffs = [1]\<rparr> [0] \<lparr>rows = 1, cols = 1, coeffs = [1]\<rparr>
          1 0) = None
   \<and> edge2_partials
       (hmm_partials (Mat_double \<lparr>rows = 1, cols = 1, coeffs = [0]\<rparr>)
          (Mat_var \<lparr>rows = 1, cols = 1, coeffs = [0]\<rparr>) (Vec_double [1])
          \<lparr>rows = 1, cols = 1, coeffs = [0]\<rparr> \<lparr>rows = 1, cols = 1, coeffs = [1]\<rparr> [1]
          0 \<lparr>rows = 1, cols = 1, coeffs = [1]\<rparr> [0] \<lparr>rows = 1, cols = 1, coeffs = [1]\<rparr>
          1 0) \<noteq> None"
proof -
  define s where "s = [\<lparr>val = 3, adj = 0, kind = Leaf\<rparr>,
            \<lparr>val = 4, adj = 1, kind = Scal_squared_distance_vd 0 1\<rparr>]"
  note T = constant_operand_skip [where s = s and q = 1 and a = 0 and b = 1 and p = 1
      and log_omegas = "Mat_double \<lparr>rows = 1, cols = 1, coeffs = [0]\<rparr>"
      and Gamma = "Mat_var \<lparr>rows = 1, cols = 1, coeffs = [0]\<rparr>" and rho = "Vec_double [1]"
      and lo = "\<lparr>rows = 1, cols = 1, coeffs = [0]\<rparr>"
      and g = "\<lparr>rows = 1, cols = 1, coeffs = [1]\<rparr>" and rh = "[1]" and lmd = 0
      and al = "\<lparr>rows = 1, cols = 1, coeffs = [1]\<rparr>" and aln = "[0]"
      and om = "\<lparr>rows = 1, cols = 1, coeffs = [1]\<rparr>" and k = 1 and t = 0]
  have frame: "chain 1 s ! 1 = s ! 1"
    using T by (simp add: s_def)
  have len: "length (chain 1 s) = 2"
    by (simp add: chain_def s_def scal_squared_distance_vd_chain_def)
  have n0: "chain 1 s ! 0 = \<lparr>val = 3, adj = 4, kind = Leaf\<rparr>"
    by (simp add: chain_def s_def scal_squared_distance_vd_chain_def adj_add_def)
  have two: "xs = [xs ! 0, xs ! 1]" if "length xs = 2" for xs :: "'a list"
    using that by (cases xs; cases "tl xs") (auto simp: numeral_2_eq_2)
  have ch: "chain 1 s = [\<lparr>val = 3, adj = 4, kind = Leaf\<rparr>,
        \<lparr>val = 4, adj = 1, kind = Scal_squared_distance_vd 0 1\<rparr>]"
    using two [OF len] n0 frame by (simp add: s_def)
  show ?thesis
    using ch T unfolding s_def by simp
qed

section \<open>The forward pass and direct summation\<close>


lemma length_transpose_times_vec [simp]: "length (transpose_times_vec g v) = cols g"
  by (simp add: transpose_times_vec_def)

lemma length_cwiseProduct [simp]: "length (cwiseProduct a b) = min (length a) (length b)"
  by (simp add: cwiseProduct_def)

lemma nth_cwiseProduct:
  "i < length a \<Longrightarrow> i < length b \<Longrightarrow> cwiseProduct a b ! i = a ! i * b ! i"
  by (simp add: cwiseProduct_def)

lemma length_vec_div [simp]: "length (vec_div v c) = length v"
  by (simp add: vec_div_def)





















subsection \<open>Underflow in double precision\<close>



lemma round_range_0 [simp]: "round_range 0 = Finite 0"
  by (simp add: round_range_def)


section \<open>The adjoint computation and the Jacobian-adjoint products\<close>

lemma col_mat_div: "col (mat_div m c) j = vec_div (col m j) c"
  by (simp add: col_def mat_div_def vec_div_def take_map drop_map)

lemma col_mat_cwiseProduct:
  assumes "rows b = rows a"
  shows "col (mat_cwiseProduct a b) j = cwiseProduct (col a j) (col b j)"
  using assms
  by (simp add: col_def mat_cwiseProduct_def cwiseProduct_def take_map drop_map take_zip drop_zip)

lemma wf_Zero [simp]: "wf_matrix (Zero r c)"
  and rows_Zero [simp]: "rows (Zero r c) = r"
  and cols_Zero [simp]: "cols (Zero r c) = c"
  by (simp_all add: Zero_def wf_matrix_def)

lemma length_times_vec [simp]: "length (times_vec g v) = rows g"
  by (simp add: times_vec_def)

lemma length_vec_scale [simp]: "length (vec_scale c v) = length v"
  by (simp add: vec_scale_def)

lemma nth_vec_scale: "i < length v \<Longrightarrow> vec_scale c v ! i = c * v ! i"
  by (simp add: vec_scale_def)

lemma coeffs_outer_transposed:
  assumes "j < length u" and "i < length w"
  shows "length (coeffs (outer_transposed u w)) = length w * length u"
    and "coeffs (outer_transposed u w) ! (j * length w + i) = u ! j * w ! i"
proof -
  let ?xss = "map (\<lambda>j. map (\<lambda>i. u ! j * w ! i) [0..<length w]) [0..<length u]"
  have blk: "take (length w) (drop (j * length w) (concat ?xss)) = ?xss ! j"
    using assms by (intro take_drop_concat_block) auto
  show len: "length (coeffs (outer_transposed u w)) = length w * length u"
    by (simp add: outer_transposed_def length_concat comp_def sum_list_triv)
  have "Suc j \<le> length u" using assms by simp
  then have "Suc j * length w \<le> length u * length w" by (rule mult_le_mono1)
  then have b: "j * length w + i < length (concat ?xss)"
    using assms len by (simp add: outer_transposed_def mult.commute)
  have "concat ?xss ! (j * length w + i)
      = take (length w) (drop (j * length w) (concat ?xss)) ! i"
    using assms b by simp
  also have "\<dots> = u ! j * w ! i"
    unfolding blk using assms by simp
  finally show "coeffs (outer_transposed u w) ! (j * length w + i) = u ! j * w ! i"
    by (simp add: outer_transposed_def)
qed

lemma fold_mat_add:
  assumes "\<forall>n\<in>set ns. length (coeffs (M n)) = length (coeffs Z)" and "p < length (coeffs Z)"
  shows "rows (fold (\<lambda>n J. mat_add J (M n)) ns Z) = rows Z
    \<and> cols (fold (\<lambda>n J. mat_add J (M n)) ns Z) = cols Z
    \<and> length (coeffs (fold (\<lambda>n J. mat_add J (M n)) ns Z)) = length (coeffs Z)
    \<and> coeffs (fold (\<lambda>n J. mat_add J (M n)) ns Z) ! p
        = coeffs Z ! p + (\<Sum>n\<leftarrow>ns. coeffs (M n) ! p)"
  using assms
proof (induction ns arbitrary: Z)
  case Nil
  then show ?case by simp
next
  case (Cons n ns)
  have l: "length (coeffs (mat_add Z (M n))) = length (coeffs Z)"
    using Cons.prems by (simp add: mat_add_def)
  have "\<forall>m\<in>set ns. length (coeffs (M m)) = length (coeffs (mat_add Z (M n)))"
    using Cons.prems(1) unfolding l by simp
  moreover have "p < length (coeffs (mat_add Z (M n)))"
    using Cons.prems(2) l by simp
  ultimately have IH: "rows (fold (\<lambda>n J. mat_add J (M n)) ns (mat_add Z (M n))) = rows (mat_add Z (M n))
    \<and> cols (fold (\<lambda>n J. mat_add J (M n)) ns (mat_add Z (M n))) = cols (mat_add Z (M n))
    \<and> length (coeffs (fold (\<lambda>n J. mat_add J (M n)) ns (mat_add Z (M n))))
        = length (coeffs (mat_add Z (M n)))
    \<and> coeffs (fold (\<lambda>n J. mat_add J (M n)) ns (mat_add Z (M n))) ! p
        = coeffs (mat_add Z (M n)) ! p + (\<Sum>n\<leftarrow>ns. coeffs (M n) ! p)"
    by (rule Cons.IH)
  have "coeffs (mat_add Z (M n)) ! p = coeffs Z ! p + coeffs (M n) ! p"
    using Cons.prems by (simp add: mat_add_def)
  then show ?case
    using IH l by (simp add: mat_add_def)
qed

lemma fold_set_col:
  assumes "wf_matrix Z" and "distinct ns" and "\<forall>n\<in>set ns. Suc n < cols Z \<and> length (w n) = rows Z"
  shows "wf_matrix (fold (\<lambda>n j. set_col j (Suc n) (w n)) ns Z)
    \<and> rows (fold (\<lambda>n j. set_col j (Suc n) (w n)) ns Z) = rows Z
    \<and> cols (fold (\<lambda>n j. set_col j (Suc n) (w n)) ns Z) = cols Z
    \<and> (\<forall>n\<in>set ns. col (fold (\<lambda>n j. set_col j (Suc n) (w n)) ns Z) (Suc n) = w n)
    \<and> (\<forall>k<cols Z. k \<notin> Suc ` set ns \<longrightarrow>
          col (fold (\<lambda>n j. set_col j (Suc n) (w n)) ns Z) k = col Z k)"
  using assms
proof (induction ns arbitrary: Z)
  case Nil
  then show ?case by simp
next
  case (Cons n ns)
  define Z' where "Z' = set_col Z (Suc n) (w n)"
  have n: "Suc n < cols Z" "length (w n) = rows Z"
    using Cons.prems(3) by simp_all
  have wf': "wf_matrix Z'" and d: "rows Z' = rows Z" "cols Z' = cols Z"
    using Cons.prems(1) n by (simp_all add: Z'_def wf_set_col)
  have same: "col Z' (Suc n) = w n"
    using Cons.prems(1) n by (simp add: Z'_def col_set_col_same)
  have other: "col Z' k = col Z k" if "k < cols Z" "k \<noteq> Suc n" for k
    unfolding Z'_def using Cons.prems(1) n that by (intro col_set_col_other) simp_all
  have "distinct ns" "\<forall>m\<in>set ns. Suc m < cols Z' \<and> length (w m) = rows Z'"
    using Cons.prems d by simp_all
  from Cons.IH [OF wf' this]
  have IH: "wf_matrix (fold (\<lambda>n j. set_col j (Suc n) (w n)) ns Z')"
    "rows (fold (\<lambda>n j. set_col j (Suc n) (w n)) ns Z') = rows Z"
    "cols (fold (\<lambda>n j. set_col j (Suc n) (w n)) ns Z') = cols Z"
    "\<And>m. m \<in> set ns \<Longrightarrow> col (fold (\<lambda>n j. set_col j (Suc n) (w n)) ns Z') (Suc m) = w m"
    "\<And>k. k < cols Z \<Longrightarrow> k \<notin> Suc ` set ns \<Longrightarrow>
        col (fold (\<lambda>n j. set_col j (Suc n) (w n)) ns Z') k = col Z' k"
    using d by simp_all
  have nn: "n \<notin> set ns" using Cons.prems(2) by simp
  have A: "col (fold (\<lambda>n j. set_col j (Suc n) (w n)) ns Z') (Suc n) = w n"
    using IH(5) [of "Suc n"] n nn same by auto
  have B: "col (fold (\<lambda>n j. set_col j (Suc n) (w n)) ns Z') k = col Z k"
    if "k < cols Z" "k \<notin> Suc ` set (n # ns)" for k
    using IH(5) [of k] other [of k] that by auto
  show ?case
    using IH(1-4) A B by (auto simp: Z'_def [symmetric])
qed

lemma hmm_partials_Gamma:
  assumes "hmm_kappa_recursion G om l K T = (kappa, kln, gc)"
    and "\<not> is_constant_all_mat Gamma"
  shows "edge2_partials (hmm_partials log_omegas Gamma rho lo G r v a l om K T)
     = Some (hmm_Gamma_jacad om a kappa gc K T (sum_list (col a T)))"
  using assms by (simp add: hmm_partials_def Let_def)

lemma hmm_partials_log_omegas:
  assumes "hmm_kappa_recursion G om l K T = (kappa, kln, gc)"
    and "\<not> is_constant_all_mat log_omegas" and "0 < T"
  shows "edge1_partials (hmm_partials log_omegas Gamma rho lo G r v a l om K T)
     = Some (mat_cwiseProduct
               (set_col
                  (fold (\<lambda>n j. set_col j (Suc n)
                                  (vec_scale (gc ! n)
                                     (cwiseProduct (kappa ! n)
                                        (transpose_times_vec G (col a n)))))
                     (rev [0..<T]) (Zero K (Suc T)))
                  0
                  (vec_scale (exp (kln ! 0 - l ! T))
                     (cwiseProduct (times_vec G (cwiseProduct (col om 1) (kappa ! 0))) r)))
               (mat_div om (sum_list (col a T))))"
  using assms by (simp add: hmm_partials_def Let_def)

lemma hmm_partials_rho:
  assumes "hmm_kappa_recursion G om l K T = (kappa, kln, gc)"
    and "\<not> is_constant_all_vec rho" and "0 < T"
  shows "edge3_partials (hmm_partials log_omegas Gamma rho lo G r v a l om K T)
     = Some (vec_div
               (vec_scale (exp (kln ! 0 - l ! T))
                  (cwiseProduct (times_vec G (cwiseProduct (col om 1) (kappa ! 0))) (col om 0)))
               (sum_list (col a T)))"
  using assms by (simp add: hmm_partials_def Let_def)

lemma dims_fold_mat_add:
  "rows (fold (\<lambda>n J. mat_add J (M n)) ns Z) = rows Z
   \<and> cols (fold (\<lambda>n J. mat_add J (M n)) ns Z) = cols Z"
  by (induction ns arbitrary: Z) (simp_all add: mat_add_def)

lemma dims_hmm_Gamma_jacad:
  "rows (hmm_Gamma_jacad om a kappa gc K T um) = K
   \<and> cols (hmm_Gamma_jacad om a kappa gc K T um) = K"
  unfolding hmm_Gamma_jacad_def using dims_fold_mat_add [of _ _ "Zero K K"]
  by (simp add: mat_div_def)

lemma coeff_hmm_Gamma_jacad:
  assumes len: "\<forall>n<T. length (kappa ! n) = K \<and> length (col om (Suc n)) = K
                    \<and> length (col a n) = K"
    and i: "i < K" and j: "j < K"
  shows "coeff (hmm_Gamma_jacad om a kappa gc K T um) i j
       = (\<Sum>n<T. gc ! n * (kappa ! n ! j * col om (Suc n) ! j) * col a n ! i) / um"
proof -
  define M where "M n = outer_transposed
      (vec_scale (gc ! n) (cwiseProduct (kappa ! n) (col om (Suc n)))) (col a n)" for n
  define J where "J = fold (\<lambda>n J. mat_add J (M n)) (rev [0..<T]) (Zero K K)"
  have def: "hmm_Gamma_jacad om a kappa gc K T um = mat_div J um"
    by (simp add: hmm_Gamma_jacad_def J_def M_def)
  have "Suc j \<le> K" using j by simp
  then have "Suc j * K \<le> K * K" by (rule mult_le_mono1)
  then have p: "j * K + i < K * K" using i by simp
  have lz: "length (coeffs (Zero K K)) = K * K"
    by (simp add: Zero_def)
  have Mn: "length (coeffs (M n)) = K * K
      \<and> coeffs (M n) ! (j * K + i) = gc ! n * (kappa ! n ! j * col om (Suc n) ! j) * col a n ! i"
    if "n < T" for n
  proof -
    let ?u = "vec_scale (gc ! n) (cwiseProduct (kappa ! n) (col om (Suc n)))"
    have l: "length ?u = K" "length (col a n) = K"
      using len that by simp_all
    have uj: "?u ! j = gc ! n * (kappa ! n ! j * col om (Suc n) ! j)"
      using len that j by (simp add: nth_vec_scale nth_cwiseProduct)
    have jl: "j < length ?u" "i < length (col a n)"
      using l i j by simp_all
    show ?thesis
      using coeffs_outer_transposed [OF jl] unfolding l M_def uj by simp
  qed
  have "\<forall>n\<in>set (rev [0..<T]). length (coeffs (M n)) = length (coeffs (Zero K K))"
    using Mn lz by simp
  moreover have "j * K + i < length (coeffs (Zero K K))"
    using p lz by simp
  ultimately have F: "rows J = rows (Zero K K) \<and> cols J = cols (Zero K K)
    \<and> length (coeffs J) = length (coeffs (Zero K K))
    \<and> coeffs J ! (j * K + i)
        = coeffs (Zero K K) ! (j * K + i) + (\<Sum>n\<leftarrow>rev [0..<T]. coeffs (M n) ! (j * K + i))"
    unfolding J_def by (rule fold_mat_add)
  have "(\<Sum>n\<leftarrow>rev [0..<T]. coeffs (M n) ! (j * K + i))
      = (\<Sum>n\<leftarrow>[0..<T]. coeffs (M n) ! (j * K + i))"
    by (simp add: rev_map [symmetric])
  also have "\<dots> = (\<Sum>n<T. coeffs (M n) ! (j * K + i))"
    by (simp add: interv_sum_list_conv_sum_set_nat lessThan_atLeast0)
  also have "\<dots> = (\<Sum>n<T. gc ! n * (kappa ! n ! j * col om (Suc n) ! j) * col a n ! i)"
    using Mn by (intro sum.cong) simp_all
  finally have S: "(\<Sum>n\<leftarrow>rev [0..<T]. coeffs (M n) ! (j * K + i))
      = (\<Sum>n<T. gc ! n * (kappa ! n ! j * col om (Suc n) ! j) * col a n ! i)" .
  have z: "coeffs (Zero K K) ! (j * K + i) = 0"
    using p by (simp add: Zero_def)
  show "coeff (hmm_Gamma_jacad om a kappa gc K T um) i j
       = (\<Sum>n<T. gc ! n * (kappa ! n ! j * col om (Suc n) ! j) * col a n ! i) / um"
    using F p lz S z by (simp add: def mat_div_def coeff_def)
qed

lemma cols_hmm_log_omega_jacad:
  fixes w :: "nat \<Rightarrow> real list" and um :: real
  assumes w: "\<forall>n<T. length (w n) = K" and v0: "length v0 = K" and om: "rows om = K"
  defines "E \<equiv> mat_cwiseProduct
               (set_col (fold (\<lambda>n j. set_col j (Suc n) (w n)) (rev [0..<T]) (Zero K (Suc T)))
                  0 v0)
               (mat_div om um)"
  shows "rows E = K" and "cols E = Suc T"
    and "col E 0 = cwiseProduct v0 (vec_div (col om 0) um)"
    and "\<forall>n<T. col E (Suc n) = cwiseProduct (w n) (vec_div (col om (Suc n)) um)"
proof -
  define J where "J = fold (\<lambda>n j. set_col j (Suc n) (w n)) (rev [0..<T]) (Zero K (Suc T))"
  have "wf_matrix (Zero K (Suc T))" "distinct (rev [0..<T])"
    "\<forall>n\<in>set (rev [0..<T]). Suc n < cols (Zero K (Suc T)) \<and> length (w n) = rows (Zero K (Suc T))"
    using w by simp_all
  then have "wf_matrix J \<and> rows J = rows (Zero K (Suc T)) \<and> cols J = cols (Zero K (Suc T))
    \<and> (\<forall>n\<in>set (rev [0..<T]). col J (Suc n) = w n)
    \<and> (\<forall>k<cols (Zero K (Suc T)). k \<notin> Suc ` set (rev [0..<T]) \<longrightarrow> col J k = col (Zero K (Suc T)) k)"
    unfolding J_def by (rule fold_set_col)
  then have wf: "wf_matrix J" and d: "rows J = K" "cols J = Suc T"
    and cn: "\<And>n. n < T \<Longrightarrow> col J (Suc n) = w n"
    by simp_all
  define J0 where "J0 = set_col J 0 v0"
  have E: "E = mat_cwiseProduct J0 (mat_div om um)"
    by (simp add: E_def J0_def J_def)
  have r: "rows (mat_div om um) = rows J0"
    using om d by (simp add: J0_def mat_div_def)
  have c0: "col J0 0 = v0"
    unfolding J0_def using wf d v0 by (intro col_set_col_same) simp_all
  have cs: "col J0 (Suc n) = w n" if "n < T" for n
  proof -
    have "col J0 (Suc n) = col J (Suc n)"
      unfolding J0_def using wf d v0 that by (intro col_set_col_other) simp_all
    then show ?thesis using cn [OF that] by simp
  qed
  show "rows E = K" and "cols E = Suc T"
    using d by (simp_all add: E J0_def mat_cwiseProduct_def)
  show "col E 0 = cwiseProduct v0 (vec_div (col om 0) um)"
    unfolding E by (simp add: col_mat_cwiseProduct [OF r] col_mat_div c0)
  show "\<forall>n<T. col E (Suc n) = cwiseProduct (w n) (vec_div (col om (Suc n)) um)"
    unfolding E by (simp add: col_mat_cwiseProduct [OF r] col_mat_div cs)
qed

lemma length_Ones [simp]: "length (Ones n) = n"
  by (simp add: Ones_def)

text \<open>
  C2. For every valid input with at least one transition (\<open>n_transitions = T > 0\<close>),
  \<open>hmm_marginal_lpdf\<close> runs the forward pass, which gives the value \<open>v\<close>, the columns
  \<open>a\<close> and the log-normalizers \<open>l\<close>, and then the \<open>kappa\<close> recursion on these: \<open>kappa\<close>
  starts at the last step with a vector of ones and log-normalizer 0 and runs backward to
  step 0, \<open>kappa[n]\<close> being \<open>Gamma (omegas.col(n + 2) \<odot> kappa[n + 1])\<close> divided by its own
  largest coefficient, whose logarithm is added to \<open>kappa_log_norms(n + 1)\<close>; neither depends
  on the log-normalizers of the forward pass; and
  \<open>grad_corr[n] = exp(l(n) + kappa_log_norms(n) - l(T))\<close>, where \<open>l(T)\<close> is the last
  log-normalizer of the forward pass. The result is built from the value \<open>v\<close> and the
  three Jacobian-adjoint products, which are computed from these for each operand that is
  not constant. With \<open>s\<close> the sum of the last column of \<open>a\<close>:
  the product for \<open>Gamma\<close> has the entry
  \<open>(\<Sum>n<T. grad_corr[n] kappa[n](j) omegas(j, n + 1) a(i, n)) / s\<close> in row \<open>i\<close>, column \<open>j\<close>;
  the product for \<open>log_omegas\<close> has the column
  \<open>grad_corr[n] (kappa[n] \<odot> Gamma\<^sup>T a.col(n)) \<odot> omegas.col(n + 1) / s\<close> at \<open>n + 1\<close> and the
  column \<open>exp(kappa_log_norms(0) - l(T)) (c \<odot> rho) \<odot> omegas.col(0) / s\<close> at 0, with
  \<open>c = Gamma (omegas.col(1) \<odot> kappa[0])\<close>; the product for \<open>rho\<close> is
  \<open>exp(kappa_log_norms(0) - l(T)) (c \<odot> omegas.col(0)) / s\<close>.
\<close>

theorem hmm_adjoint_computation:
  fixes tol :: real and log_omegas Gamma :: mat_operand and rho :: vec_operand and st :: stack
  defines "lo \<equiv> value_of_rec_mat st log_omegas"
    and "G \<equiv> value_of_rec_mat st Gamma"
    and "r \<equiv> value_of_rec_vec st rho"
  defines "om \<equiv> mat_exp lo" and "K \<equiv> rows lo" and "T \<equiv> cols lo - 1"
  assumes wf: "wf_matrix lo" and T: "0 < T"
    and sq: "rows G = cols G" and cg: "cols G = K"
    and sg: "\<forall>i<rows G. is_simplex tol (row G i)"
    and lr: "length r = K" and sr: "is_simplex tol r"
  shows "\<exists>v a l kappa kln gc.
      hmm_marginal_lpdf_internal lo G r (Zero K (cols lo)) (replicate (cols lo) 0)
        = Some (v, a, l, om)
    \<and> hmm_kappa_recursion G om l K T = (kappa, kln, gc)
    \<and> length kappa = T \<and> length kln = T \<and> length gc = T
    \<and> kappa ! (T - 1) = Ones K \<and> kln ! (T - 1) = 0
    \<and> (\<forall>n. n + 1 < T \<longrightarrow>
          (let u = times_vec G (cwiseProduct (col om (n + 2)) (kappa ! (n + 1)))
           in kappa ! n = vec_div u (maxCoeff u)
              \<and> kln ! n = ln (maxCoeff u) + kln ! (n + 1)))
    \<and> (\<forall>n<T. gc ! n = exp (l ! n + kln ! n - l ! T))
    \<and> (\<forall>other. fst (hmm_kappa_recursion G om other K T) = kappa
               \<and> fst (snd (hmm_kappa_recursion G om other K T)) = kln)
    \<and> hmm_marginal_lpdf tol log_omegas Gamma rho st
        = Some (case build log_omegas Gamma rho
                       (hmm_partials log_omegas Gamma rho lo G r v a l om K T) v st
                of (ret, st') \<Rightarrow> (Inr ret, st'))
    \<and> (\<not> is_constant_all_mat Gamma \<longrightarrow>
         (\<exists>E. edge2_partials (hmm_partials log_omegas Gamma rho lo G r v a l om K T) = Some E
            \<and> rows E = K \<and> cols E = K
            \<and> (\<forall>i<K. \<forall>j<K. coeff E i j
                  = (\<Sum>n<T. gc ! n * (kappa ! n ! j * col om (n + 1) ! j) * col a n ! i)
                    / sum_list (col a T))))
    \<and> (\<not> is_constant_all_mat log_omegas \<longrightarrow>
         (\<exists>E. edge1_partials (hmm_partials log_omegas Gamma rho lo G r v a l om K T) = Some E
            \<and> rows E = K \<and> cols E = T + 1
            \<and> col E 0
                = cwiseProduct
                    (vec_scale (exp (kln ! 0 - l ! T))
                       (cwiseProduct (times_vec G (cwiseProduct (col om 1) (kappa ! 0))) r))
                    (vec_div (col om 0) (sum_list (col a T)))
            \<and> (\<forall>n<T. col E (n + 1)
                  = cwiseProduct
                      (vec_scale (gc ! n)
                         (cwiseProduct (kappa ! n) (transpose_times_vec G (col a n))))
                      (vec_div (col om (n + 1)) (sum_list (col a T))))))
    \<and> (\<not> is_constant_all_vec rho \<longrightarrow>
         edge3_partials (hmm_partials log_omegas Gamma rho lo G r v a l om K T)
           = Some (vec_div
                     (vec_scale (exp (kln ! 0 - l ! T))
                        (cwiseProduct (times_vec G (cwiseProduct (col om 1) (kappa ! 0)))
                           (col om 0)))
                     (sum_list (col a T))))"
proof -
  have cl: "cols lo = Suc T"
    using T by (simp add: T_def)
  have wfo: "wf_matrix om" and ro: "rows om = K" and co: "cols om = Suc T"
    using wf cl by (simp_all add: om_def K_def)
  have chk: "hmm_check_arguments tol G r K = Inr ()"
    using sq cg sg lr sr by (simp add: hmm_check_arguments_cases)
  have "\<exists>v a l.
      hmm_marginal_lpdf_internal lo G r (Zero K (cols lo)) (replicate (cols lo) 0)
        = Some (v, a, l, mat_exp lo)
    \<and> (let u = cwiseProduct (col (mat_exp lo) 0) r
       in col a 0 = vec_div u (maxCoeff u) \<and> l ! 0 = ln (maxCoeff u))
    \<and> (\<forall>n. 0 < n \<and> n < cols lo \<longrightarrow>
         (let u = cwiseProduct (col (mat_exp lo) n) (transpose_times_vec G (col a (n - 1)))
          in col a n = vec_div u (maxCoeff u) \<and> l ! n = ln (maxCoeff u) + l ! (n - 1)))
    \<and> v = ln (sum_list (col a (cols lo - 1))) + l ! (cols lo - 1)"
    using wf lr cg cl by (intro hmm_forward_pass_recurrences) (simp_all add: K_def)
  then obtain v a l where
    res: "hmm_marginal_lpdf_internal lo G r (Zero K (cols lo)) (replicate (cols lo) 0)
        = Some (v, a, l, om)"
    and A0: "col a 0 = vec_div (cwiseProduct (col om 0) r) (maxCoeff (cwiseProduct (col om 0) r))"
    and An: "\<And>n. 0 < n \<Longrightarrow> n < cols lo \<Longrightarrow>
          col a n = vec_div (cwiseProduct (col om n) (transpose_times_vec G (col a (n - 1))))
                      (maxCoeff (cwiseProduct (col om n) (transpose_times_vec G (col a (n - 1)))))"
    unfolding om_def Let_def by blast
  have lco: "length (col om n) = K" if "n < Suc T" for n
    using length_col [OF wfo, of n] that co ro by simp
  have la: "length (col a n) = K" if "n < Suc T" for n
  proof (cases "n = 0")
    case True
    then show ?thesis
      using A0 lco [of 0] lr by simp
  next
    case False
    then show ?thesis
      using An [of n] that cl lco [of n] cg by simp
  qed
  obtain kappa kln gc where kr: "hmm_kappa_recursion G om l K T = (kappa, kln, gc)"
    by (cases "hmm_kappa_recursion G om l K T")
  from hmm_kappa_recursion_recurrences [OF T, where Gamma_dbl = G and omegas = om
      and alpha_log_norms = l and n_states = K] kr
  have len: "length kappa = T" "length kln = T" "length gc = T"
    and K1: "kappa ! (T - 1) = Ones K" and KL1: "kln ! (T - 1) = 0"
    and rec: "\<forall>n. n + 1 < T \<longrightarrow>
          (let u = times_vec G (cwiseProduct (col om (n + 2)) (kappa ! (n + 1)))
           in kappa ! n = vec_div u (maxCoeff u)
              \<and> kln ! n = ln (maxCoeff u) + kln ! (n + 1))"
    and gc: "\<forall>n<T. gc ! n = exp (l ! n + kln ! n - l ! T)"
    and ind: "\<forall>other. fst (hmm_kappa_recursion G om other K T) = kappa
               \<and> fst (snd (hmm_kappa_recursion G om other K T)) = kln"
    by simp_all
  have lk: "length (kappa ! n) = K" if "n < T" for n
  proof (cases "n + 1 < T")
    case True
    with rec have "kappa ! n = vec_div (times_vec G (cwiseProduct (col om (n + 2)) (kappa ! (n + 1))))
        (maxCoeff (times_vec G (cwiseProduct (col om (n + 2)) (kappa ! (n + 1)))))"
      by (simp add: Let_def)
    then show ?thesis
      using sq cg by simp
  next
    case False
    then have "n = T - 1" using that by simp
    then show ?thesis using K1 by simp
  qed
  define ops where "ops = hmm_partials log_omegas Gamma rho lo G r v a l om K T"
  define um where "um = sum_list (col a T)"
  have nt: "nat (int (cols lo) - 1 + 1) = cols lo" "nat (int (cols lo) - 1) = T"
    using cl by simp_all
  have main: "hmm_marginal_lpdf tol log_omegas Gamma rho st
        = Some (case build log_omegas Gamma rho ops v st of (ret, st') \<Rightarrow> (Inr ret, st'))"
    unfolding hmm_marginal_lpdf_def Let_def lo_def [symmetric] G_def [symmetric]
      r_def [symmetric] K_def [symmetric] nt
    by (simp add: chk res ops_def split: prod.splits)
  have E2: "\<exists>E. edge2_partials ops = Some E \<and> rows E = K \<and> cols E = K
            \<and> (\<forall>i<K. \<forall>j<K. coeff E i j
                  = (\<Sum>n<T. gc ! n * (kappa ! n ! j * col om (n + 1) ! j) * col a n ! i) / um)"
    if nc: "\<not> is_constant_all_mat Gamma"
  proof -
    have l: "\<forall>n<T. length (kappa ! n) = K \<and> length (col om (Suc n)) = K \<and> length (col a n) = K"
      using lk lco la by simp
    have "edge2_partials ops = Some (hmm_Gamma_jacad om a kappa gc K T um)"
      unfolding ops_def um_def using kr nc by (rule hmm_partials_Gamma)
    then show ?thesis
      using coeff_hmm_Gamma_jacad [OF l] dims_hmm_Gamma_jacad [of om a kappa gc K T um]
      by simp
  qed
  have E1: "\<exists>E. edge1_partials ops = Some E \<and> rows E = K \<and> cols E = T + 1
            \<and> col E 0
                = cwiseProduct
                    (vec_scale (exp (kln ! 0 - l ! T))
                       (cwiseProduct (times_vec G (cwiseProduct (col om 1) (kappa ! 0))) r))
                    (vec_div (col om 0) um)
            \<and> (\<forall>n<T. col E (n + 1)
                  = cwiseProduct
                      (vec_scale (gc ! n)
                         (cwiseProduct (kappa ! n) (transpose_times_vec G (col a n))))
                      (vec_div (col om (n + 1)) um))"
    if nc: "\<not> is_constant_all_mat log_omegas"
  proof -
    define w where "w n = vec_scale (gc ! n)
        (cwiseProduct (kappa ! n) (transpose_times_vec G (col a n)))" for n
    define v0 where "v0 = vec_scale (exp (kln ! 0 - l ! T))
        (cwiseProduct (times_vec G (cwiseProduct (col om 1) (kappa ! 0))) r)"
    have lw: "\<forall>n<T. length (w n) = K"
      using lk cg by (simp add: w_def)
    have lv: "length v0 = K"
      using sq cg lr by (simp add: v0_def)
    have "edge1_partials ops = Some (mat_cwiseProduct
               (set_col (fold (\<lambda>n j. set_col j (Suc n) (w n)) (rev [0..<T]) (Zero K (Suc T)))
                  0 v0)
               (mat_div om um))"
      unfolding ops_def um_def w_def v0_def using kr nc T by (rule hmm_partials_log_omegas)
    then show ?thesis
      using cols_hmm_log_omega_jacad [OF lw lv ro, of um]
      by (simp add: w_def v0_def)
  qed
  have E3: "edge3_partials ops
           = Some (vec_div
                     (vec_scale (exp (kln ! 0 - l ! T))
                        (cwiseProduct (times_vec G (cwiseProduct (col om 1) (kappa ! 0)))
                           (col om 0)))
                     um)"
    if nc: "\<not> is_constant_all_vec rho"
    unfolding ops_def um_def using kr nc T by (rule hmm_partials_rho)
  show ?thesis
    using res kr len K1 KL1 rec gc ind main E2 E1 E3
    unfolding ops_def um_def by blast
qed

theorem hmm_adjoint_computation_witness:
  "\<exists>v a l.
      hmm_marginal_lpdf_internal
        \<lparr>rows = 2, cols = 3, coeffs = [0, 0, 0, ln 3, 0, ln 2]\<rparr>
        \<lparr>rows = 2, cols = 2, coeffs = [9 / 10, 2 / 10, 1 / 10, 8 / 10]\<rparr>
        [1 / 2, 1 / 2] (Zero 2 3) (replicate 3 0)
      = Some (v, a, l, \<lparr>rows = 2, cols = 3, coeffs = [1, 1, 1, 3, 1, 2]\<rparr>)
    \<and> hmm_kappa_recursion
        \<lparr>rows = 2, cols = 2, coeffs = [9 / 10, 2 / 10, 1 / 10, 8 / 10]\<rparr>
        \<lparr>rows = 2, cols = 3, coeffs = [1, 1, 1, 3, 1, 2]\<rparr> l 2 2
      = ([[11 / 18, 1], [1, 1]], [ln (9 / 5), 0],
         [exp (l ! 0 + ln (9 / 5) - l ! 2), exp (l ! 1 - l ! 2)])
    \<and> hmm_marginal_lpdf (1 / 10 ^ 8)
        (Mat_double \<lparr>rows = 2, cols = 3, coeffs = [0, 0, 0, ln 3, 0, ln 2]\<rparr>)
        (Mat_double \<lparr>rows = 2, cols = 2, coeffs = [9 / 10, 2 / 10, 1 / 10, 8 / 10]\<rparr>)
        (Vec_var [0, 1])
        [\<lparr>val = 1 / 2, adj = 0, kind = Leaf\<rparr>, \<lparr>val = 1 / 2, adj = 0, kind = Leaf\<rparr>]
      = Some (Inr (Return_var 2),
          [\<lparr>val = 1 / 2, adj = 0, kind = Leaf\<rparr>, \<lparr>val = 1 / 2, adj = 0, kind = Leaf\<rparr>,
           \<lparr>val = v, adj = 0,
            kind = Operands_and_partials [0, 1]
              (vec_div (vec_scale (exp (ln (9 / 5) - l ! 2)) [17 / 20, 227 / 90])
                 (sum_list (col a 2)))\<rparr>])"
proof -
  define tol :: real where "tol = 1 / 10 ^ 8"
  define lo :: "real matrix" where
    "lo = \<lparr>rows = 2, cols = 3, coeffs = [0, 0, 0, ln 3, 0, ln 2]\<rparr>"
  define G :: "real matrix" where
    "G = \<lparr>rows = 2, cols = 2, coeffs = [9 / 10, 2 / 10, 1 / 10, 8 / 10]\<rparr>"
  define r :: "real list" where "r = [1 / 2, 1 / 2]"
  define st :: stack where
    "st = [\<lparr>val = 1 / 2, adj = 0, kind = Leaf\<rparr>, \<lparr>val = 1 / 2, adj = 0, kind = Leaf\<rparr>]"
  define om :: "real matrix" where "om = \<lparr>rows = 2, cols = 3, coeffs = [1, 1, 1, 3, 1, 2]\<rparr>"
  have vr: "value_of_rec_vec st (Vec_var [0, 1]) = r"
    by (simp add: st_def r_def)
  have om: "mat_exp lo = om"
    by (simp add: lo_def om_def mat_exp_def)
  have K: "rows lo = 2" and T: "cols lo - 1 = 2" and C: "cols lo = 3"
    by (simp_all add: lo_def)
  have tol: "0 \<le> tol" "tol < 1 / 2"
    by (simp_all add: tol_def)
  have u2: "[0..<2] = [0, Suc 0]"
    by (simp add: upt_rec)
  have rg: "row G 0 = [9 / 10, 1 / 10]" "row G (Suc 0) = [2 / 10, 8 / 10]"
    by (simp_all add: row_def G_def coeff_def u2)
  have sg: "\<forall>i<rows G. is_simplex tol (row G i)"
  proof (intro allI impI)
    fix i assume "i < rows G"
    then have "i = 0 \<or> i = Suc 0" by (auto simp: G_def)
    then show "is_simplex tol (row G i)" using tol by (auto simp: rg is_simplex_def)
  qed
  have h: "wf_matrix lo" "0 < cols lo - 1" "rows G = cols G" "cols G = rows lo"
    "length r = rows lo" "is_simplex tol r"
    using tol by (simp_all add: lo_def G_def r_def wf_matrix_def is_simplex_def)
  note Th = hmm_adjoint_computation [where tol = tol and log_omegas = "Mat_double lo"
      and Gamma = "Mat_double G" and rho = "Vec_var [0, 1]" and st = st,
      unfolded value_of_rec_mat.simps vr, OF h(1-4) sg h(5,6), unfolded om K T C]
  define ops where "ops v a l = hmm_partials (Mat_double lo) (Mat_double G) (Vec_var [0, 1])
      lo G r v a l om 2 2" for v a l
  from Th obtain v a l kappa kln gc where
    res: "hmm_marginal_lpdf_internal lo G r (Zero 2 3) (replicate 3 0) = Some (v, a, l, om)"
    and kr: "hmm_kappa_recursion G om l 2 2 = (kappa, kln, gc)"
    and len: "length kappa = 2" "length kln = 2" "length gc = 2"
    and K1: "kappa ! Suc 0 = Ones 2" and KL1: "kln ! Suc 0 = 0"
    and rec: "\<And>n. n + 1 < 2 \<Longrightarrow>
          (let u = times_vec G (cwiseProduct (col om (n + 2)) (kappa ! (n + 1)))
           in kappa ! n = vec_div u (maxCoeff u) \<and> kln ! n = ln (maxCoeff u) + kln ! (n + 1))"
    and gc: "\<And>n. n < 2 \<Longrightarrow> gc ! n = exp (l ! n + kln ! n - l ! 2)"
    and main: "hmm_marginal_lpdf tol (Mat_double lo) (Mat_double G) (Vec_var [0, 1]) st
        = Some (case build (Mat_double lo) (Mat_double G) (Vec_var [0, 1]) (ops v a l) v st
                of (ret, st') \<Rightarrow> (Inr ret, st'))"
    and E3: "edge3_partials (ops v a l)
           = Some (vec_div
                     (vec_scale (exp (kln ! 0 - l ! 2))
                        (cwiseProduct (times_vec G (cwiseProduct (col om 1) (kappa ! 0)))
                           (col om 0)))
                     (sum_list (col a 2)))"
    unfolding ops_def by (auto simp: Let_def)
  have ones: "Ones 2 = [1, 1]"
    by (simp add: Ones_def numeral_2_eq_2)
  have c0: "col om 0 = [1, 1]" and c1: "col om 1 = [1, 3]" and c2: "col om (Suc (Suc 0)) = [1, 2]"
    by (simp_all add: col_def om_def)
  have u: "times_vec G (cwiseProduct [1, 2] [1, 1]) = [11 / 10, 9 / 5]"
    by (simp add: times_vec_def cwiseProduct_def G_def coeff_def upt_rec lessThan_Suc
        numeral_2_eq_2)
  have m: "maxCoeff [11 / 10, 9 / 5] = 9 / 5"
    by (simp add: maxCoeff_def)
  have K0: "kappa ! 0 = [11 / 18, 1]" and KL0: "kln ! 0 = ln (9 / 5)"
    using rec [of 0] by (simp_all add: Let_def c2 K1 KL1 ones u m vec_div_def)
  have G0: "gc ! 0 = exp (l ! 0 + ln (9 / 5) - l ! 2)" and G1: "gc ! Suc 0 = exp (l ! 1 - l ! 2)"
    using gc [of 0] gc [of "Suc 0"] by (simp_all add: KL0 KL1)
  have two: "xs = [xs ! 0, xs ! Suc 0]" if "length xs = 2" for xs :: "'a list"
    using that by (cases xs; cases "tl xs") (auto simp: numeral_2_eq_2)
  have kv: "kappa = [[11 / 18, 1], [1, 1]]" "kln = [ln (9 / 5), 0]"
    "gc = [exp (l ! 0 + ln (9 / 5) - l ! 2), exp (l ! 1 - l ! 2)]"
    using two [OF len(1)] two [OF len(2)] two [OF len(3)] K0 K1 KL0 KL1 G0 G1 ones by simp_all
  have c: "times_vec G (cwiseProduct [1, 3] [11 / 18, 1]) = [17 / 20, 227 / 90]"
    by (simp add: times_vec_def cwiseProduct_def G_def coeff_def upt_rec lessThan_Suc
        numeral_2_eq_2)
  have cc: "cwiseProduct [17 / 20, 227 / 90] [1, 1] = [17 / 20, 227 / 90]"
    by (simp add: cwiseProduct_def)
  have E3': "edge3_partials (ops v a l)
      = Some (vec_div (vec_scale (exp (ln (9 / 5) - l ! 2)) [17 / 20, 227 / 90])
                (sum_list (col a 2)))"
    unfolding E3 K0 KL0 c0 c1 c cc ..
  have E12: "edge1_partials (ops v a l) = None" "edge2_partials (ops v a l) = None"
    unfolding ops_def by (simp_all add: hmm_partials_edges)
  have b: "build (Mat_double lo) (Mat_double G) (Vec_var [0, 1]) (ops v a l) v st
      = (Return_var 2, st @ [\<lparr>val = v, adj = 0,
            kind = Operands_and_partials [0, 1]
              (vec_div (vec_scale (exp (ln (9 / 5) - l ! 2)) [17 / 20, 227 / 90])
                 (sum_list (col a 2)))\<rparr>])"
    by (simp add: build_def new_vari_def E12 E3' st_def)
  have "\<exists>v a l.
      hmm_marginal_lpdf_internal lo G r (Zero 2 3) (replicate 3 0) = Some (v, a, l, om)
    \<and> hmm_kappa_recursion G om l 2 2
      = ([[11 / 18, 1], [1, 1]], [ln (9 / 5), 0],
         [exp (l ! 0 + ln (9 / 5) - l ! 2), exp (l ! 1 - l ! 2)])
    \<and> hmm_marginal_lpdf tol (Mat_double lo) (Mat_double G) (Vec_var [0, 1]) st
      = Some (Inr (Return_var 2),
          st @ [\<lparr>val = v, adj = 0,
            kind = Operands_and_partials [0, 1]
              (vec_div (vec_scale (exp (ln (9 / 5) - l ! 2)) [17 / 20, 227 / 90])
                 (sum_list (col a 2)))\<rparr>])"
    using res kr kv main b by auto
  then show ?thesis
    unfolding tol_def lo_def G_def r_def st_def om_def append.simps .
qed

section \<open>Properties of the device copies\<close>

lemma starts_after_wait_list: "set es \<subseteq> set (wait_list c) \<Longrightarrow> starts_after c d es"
  by (auto simp: starts_after_def)

lemma starts_after_done: "set es \<subseteq> d \<Longrightarrow> starts_after c d es"
  by (auto simp: starts_after_def)

text \<open>
  The five overloads of \<open>copy\<close>. Each copy between host and device that succeeds on a
  non-empty matrix enqueues one command. The copy of an Eigen matrix from host to device
  waits, on the host, for the read events and the write events of the destination before it
  enqueues the write. The copy from device to host passes the write events of the source as
  the wait list of the read. The copy from device to device passes the read events of the
  destination and the write events of the source as the wait list, and records its event as
  a write of the destination and a read of the source. The two overloads for a scalar order
  the read after the writes of the source and the write after the reads of the destination.
\<close>

lemma copy_overloads_wait_dependencies:
  "(rows (src_e :: real matrix) = cl_rows dst \<and> cols src_e = cl_cols dst \<and> 0 < msize src_e \<longrightarrow>
      (case copy_eigen_to_cl dst src_e q of (res, dst', q') \<Rightarrow>
         res = Inr ()
         \<and> (\<exists>c. enqueued q' = enqueued q @ [c]
                \<and> operation c = WriteBuffer (buffer dst) \<and> writes_buffer (operation c) (buffer dst)
                \<and> set (read_events dst) \<union> set (write_events dst) \<subseteq> completed q'
                \<and> starts_after c (completed q') (read_events dst)
                \<and> starts_after c (completed q') (write_events dst)
                \<and> read_events dst' = [] \<and> write_events dst' = [completion c])))
   \<and> (cl_rows src = rows (dst_e :: real matrix) \<and> cl_cols src = cols dst_e \<and> 0 < cl_size src \<longrightarrow>
      (case copy_cl_to_eigen dst_e src q of (res, src', q') \<Rightarrow>
         res = Inr ()
         \<and> (\<exists>c. enqueued q' = enqueued q @ [c]
                \<and> operation c = ReadBuffer (buffer src) \<and> reads_buffer (operation c) (buffer src)
                \<and> wait_list c = write_events src
                \<and> starts_after c (completed q) (write_events src)
                \<and> completion c \<in> completed q' \<and> write_events src' = [])))
   \<and> (cl_rows src = cl_rows dst \<and> cl_cols src = cl_cols dst \<and> 0 < cl_size src \<longrightarrow>
      (case copy_cl_to_cl dst src q of (res, dst', src', q') \<Rightarrow>
         res = Inr ()
         \<and> (\<exists>c. enqueued q' = enqueued q @ [c]
                \<and> operation c = CopyBuffer (buffer src) (buffer dst)
                \<and> reads_buffer (operation c) (buffer src)
                \<and> writes_buffer (operation c) (buffer dst)
                \<and> wait_list c = read_events dst @ write_events src
                \<and> starts_after c (completed q) (write_events src)
                \<and> starts_after c (completed q) (read_events dst)
                \<and> write_events dst' = write_events dst @ [completion c]
                \<and> read_events src' = read_events src @ [completion c])))
   \<and> (cl_rows src = 1 \<and> cl_cols src = 1 \<longrightarrow>
      (case copy_cl_to_scalar src q of (res, src', q') \<Rightarrow>
         res = Inr ()
         \<and> (\<exists>c. enqueued q' = enqueued q @ [c]
                \<and> reads_buffer (operation c) (buffer src)
                \<and> starts_after c (completed q) (write_events src))))
   \<and> (cl_rows dst = 1 \<and> cl_cols dst = 1 \<longrightarrow>
      (case copy_scalar_to_cl dst q of (res, dst', q') \<Rightarrow>
         res = Inr ()
         \<and> (\<exists>c. enqueued q' = enqueued q @ [c]
                \<and> writes_buffer (operation c) (buffer dst)
                \<and> starts_after c (completed q') (read_events dst))))"
proof (intro conjI impI)
  assume "rows src_e = cl_rows dst \<and> cols src_e = cl_cols dst \<and> 0 < msize src_e"
  then show "case copy_eigen_to_cl dst src_e q of (res, dst', q') \<Rightarrow>
         res = Inr ()
         \<and> (\<exists>c. enqueued q' = enqueued q @ [c]
                \<and> operation c = WriteBuffer (buffer dst) \<and> writes_buffer (operation c) (buffer dst)
                \<and> set (read_events dst) \<union> set (write_events dst) \<subseteq> completed q'
                \<and> starts_after c (completed q') (read_events dst)
                \<and> starts_after c (completed q') (write_events dst)
                \<and> read_events dst' = [] \<and> write_events dst' = [completion c])"
    by (auto simp: copy_eigen_to_cl_def check_size_match_def Let_def enqueue_def
        wait_for_events_def clear_read_events_def clear_write_events_def add_write_event_def
        starts_after_def)
next
  assume "cl_rows src = rows dst_e \<and> cl_cols src = cols dst_e \<and> 0 < cl_size src"
  then show "case copy_cl_to_eigen dst_e src q of (res, src', q') \<Rightarrow>
         res = Inr ()
         \<and> (\<exists>c. enqueued q' = enqueued q @ [c]
                \<and> operation c = ReadBuffer (buffer src) \<and> reads_buffer (operation c) (buffer src)
                \<and> wait_list c = write_events src
                \<and> starts_after c (completed q) (write_events src)
                \<and> completion c \<in> completed q' \<and> write_events src' = [])"
    by (auto simp: copy_cl_to_eigen_def check_size_match_def Let_def enqueue_def
        wait_for_events_def clear_write_events_def starts_after_def)
next
  assume "cl_rows src = cl_rows dst \<and> cl_cols src = cl_cols dst \<and> 0 < cl_size src"
  then show "case copy_cl_to_cl dst src q of (res, dst', src', q') \<Rightarrow>
         res = Inr ()
         \<and> (\<exists>c. enqueued q' = enqueued q @ [c]
                \<and> operation c = CopyBuffer (buffer src) (buffer dst)
                \<and> reads_buffer (operation c) (buffer src)
                \<and> writes_buffer (operation c) (buffer dst)
                \<and> wait_list c = read_events dst @ write_events src
                \<and> starts_after c (completed q) (write_events src)
                \<and> starts_after c (completed q) (read_events dst)
                \<and> write_events dst' = write_events dst @ [completion c]
                \<and> read_events src' = read_events src @ [completion c])"
    by (auto simp: copy_cl_to_cl_def check_size_match_def Let_def enqueue_def
        add_write_event_def add_read_event_def starts_after_def)
next
  assume "cl_rows src = 1 \<and> cl_cols src = 1"
  then show "case copy_cl_to_scalar src q of (res, src', q') \<Rightarrow>
         res = Inr ()
         \<and> (\<exists>c. enqueued q' = enqueued q @ [c]
                \<and> reads_buffer (operation c) (buffer src)
                \<and> starts_after c (completed q) (write_events src))"
    by (auto simp: copy_cl_to_scalar_def check_size_match_def Let_def enqueue_def
        wait_for_events_def clear_write_events_def starts_after_def)
next
  assume "cl_rows dst = 1 \<and> cl_cols dst = 1"
  then show "case copy_scalar_to_cl dst q of (res, dst', q') \<Rightarrow>
         res = Inr ()
         \<and> (\<exists>c. enqueued q' = enqueued q @ [c]
                \<and> writes_buffer (operation c) (buffer dst)
                \<and> starts_after c (completed q') (read_events dst))"
    by (auto simp: copy_scalar_to_cl_def check_size_match_def Let_def enqueue_def
        wait_for_events_def clear_read_events_def add_write_event_def starts_after_def)
qed

text \<open>
  \<open>packed_copy\<close> from a \<open>std::vector\<close> to the device: the unpack kernel waits for the
  write of \<open>packed\<close>, and its event is the pending write of the matrix returned.
\<close>

lemma packed_copy_vector_to_cl_wait_dependencies:
  assumes "src_size = n_rows * (n_rows + 1) div 2" and "0 < n_rows"
  shows "case packed_copy_vector_to_cl src_size n_rows bd bp q of (res, q') \<Rightarrow>
           \<exists>dst w k. res = Inr dst \<and> enqueued q' = enqueued q @ [w, k]
             \<and> operation w = WriteBuffer bp \<and> wait_list w = []
             \<and> operation k = Kernel ''unpack'' [bp] [bd]
             \<and> wait_list k = [completion w]
             \<and> starts_after k (completed q) [completion w]
             \<and> buffer dst = bd \<and> write_events dst = [completion k] \<and> read_events dst = []"
  using assms
  by (auto simp: packed_copy_vector_to_cl_def unpack_def kernel_call_def new_matrix_cl_def
      check_size_match_def cl_size_def Let_def enqueue_def add_write_event_def
      add_read_event_def starts_after_def)

text \<open>
  C9. Not every copy inserts the wait dependencies. The copy of a scalar from the host to a
  1 by 1 device matrix waits, on the host, for the read events of the destination only, and
  enqueues the write with an empty wait list: a write of the destination that is still
  pending is neither waited for nor a prerequisite of the new write, whereas the copy of an
  Eigen matrix from the host waits for the read and the write events. \<open>packed_copy\<close>
  from the device enqueues the read of \<open>packed\<close> with the read events of \<open>packed\<close>, of
  which there are none, and the write events of \<open>src\<close> as its wait list: the event of the
  pack kernel, which writes \<open>packed\<close>, is not a prerequisite of the read, and after the
  host has waited for the read that event is still pending while the events of \<open>src\<close>
  are cleared. Both are then evaluated on a concrete input.
\<close>

theorem copy_missing_wait_dependencies:
  "(cl_rows dst = 1 \<and> cl_cols dst = 1 \<longrightarrow>
      (case copy_scalar_to_cl dst q of (res, dst', q') \<Rightarrow>
         res = Inr ()
         \<and> (\<exists>c. enqueued q' = enqueued q @ [c]
                \<and> operation c = WriteBuffer (buffer dst) \<and> writes_buffer (operation c) (buffer dst)
                \<and> wait_list c = []
                \<and> completed q' = completed q \<union> set (read_events dst)
                \<and> write_events dst' = write_events dst @ [completion c]
                \<and> (\<forall>e\<in>set (write_events dst). e \<notin> completed q \<union> set (read_events dst)
                      \<longrightarrow> \<not> starts_after c (completed q') [e]))))
   \<and> (0 < cl_rows src \<longrightarrow>
      (case packed_copy_cl_to_vector src b q of (src', q') \<Rightarrow>
         \<exists>k c. enqueued q' = enqueued q @ [k, c]
              \<and> operation k = Kernel ''pack'' [buffer src] [b] \<and> writes_buffer (operation k) b
              \<and> completion k = next_event q
              \<and> operation c = ReadBuffer b \<and> reads_buffer (operation c) b
              \<and> wait_list c = write_events src
              \<and> completed q' = completed q \<union> {completion c}
              \<and> read_events src' = [] \<and> write_events src' = []
              \<and> (completion k \<notin> completed q \<union> set (write_events src)
                    \<longrightarrow> \<not> starts_after c (completed q) [completion k]
                        \<and> completion k \<notin> completed q')))"
proof (intro conjI impI)
  assume "cl_rows dst = 1 \<and> cl_cols dst = 1"
  then show "case copy_scalar_to_cl dst q of (res, dst', q') \<Rightarrow>
         res = Inr ()
         \<and> (\<exists>c. enqueued q' = enqueued q @ [c]
                \<and> operation c = WriteBuffer (buffer dst) \<and> writes_buffer (operation c) (buffer dst)
                \<and> wait_list c = []
                \<and> completed q' = completed q \<union> set (read_events dst)
                \<and> write_events dst' = write_events dst @ [completion c]
                \<and> (\<forall>e\<in>set (write_events dst). e \<notin> completed q \<union> set (read_events dst)
                      \<longrightarrow> \<not> starts_after c (completed q') [e]))"
    by (auto simp: copy_scalar_to_cl_def check_size_match_def Let_def enqueue_def
        wait_for_events_def clear_read_events_def add_write_event_def starts_after_def)
next
  assume r: "0 < cl_rows src"
  have "0 < cl_rows src * (cl_rows src + 1) div 2"
  proof -
    have "2 \<le> cl_rows src * (cl_rows src + 1)"
      using r by (cases "cl_rows src") simp_all
    then show ?thesis by simp
  qed
  then show "case packed_copy_cl_to_vector src b q of (src', q') \<Rightarrow>
         \<exists>k c. enqueued q' = enqueued q @ [k, c]
              \<and> operation k = Kernel ''pack'' [buffer src] [b] \<and> writes_buffer (operation k) b
              \<and> completion k = next_event q
              \<and> operation c = ReadBuffer b \<and> reads_buffer (operation c) b
              \<and> wait_list c = write_events src
              \<and> completed q' = completed q \<union> {completion c}
              \<and> read_events src' = [] \<and> write_events src' = []
              \<and> (completion k \<notin> completed q \<union> set (write_events src)
                    \<longrightarrow> \<not> starts_after c (completed q) [completion k]
                        \<and> completion k \<notin> completed q')"
    by (auto simp: packed_copy_cl_to_vector_def pack_def kernel_call_def new_matrix_cl_def
        Let_def enqueue_def wait_for_events_def clear_read_events_def clear_write_events_def
        add_write_event_def add_read_event_def starts_after_def)
qed

theorem copy_missing_wait_dependencies_witness:
  "copy_scalar_to_cl
     \<lparr>buffer = 1, cl_rows = 1, cl_cols = 1, read_events = [3], write_events = [4]\<rparr>
     \<lparr>enqueued = [], completed = {}, next_event = 5\<rparr>
   = (Inr (),
      \<lparr>buffer = 1, cl_rows = 1, cl_cols = 1, read_events = [], write_events = [4, 5]\<rparr>,
      \<lparr>enqueued = [\<lparr>operation = WriteBuffer 1, wait_list = [], completion = 5\<rparr>],
        completed = {3}, next_event = 6\<rparr>)
   \<and> \<not> starts_after \<lparr>operation = WriteBuffer 1, wait_list = [], completion = 5\<rparr> {3} [4]
   \<and> packed_copy_cl_to_vector
     \<lparr>buffer = 1, cl_rows = 2, cl_cols = 2, read_events = [], write_events = []\<rparr> 2
     \<lparr>enqueued = [], completed = {}, next_event = 5\<rparr>
   = (\<lparr>buffer = 1, cl_rows = 2, cl_cols = 2, read_events = [], write_events = []\<rparr>,
      \<lparr>enqueued = [\<lparr>operation = Kernel ''pack'' [1] [2], wait_list = [], completion = 5\<rparr>,
                   \<lparr>operation = ReadBuffer 2, wait_list = [], completion = 6\<rparr>],
        completed = {6}, next_event = 7\<rparr>)
   \<and> \<not> starts_after \<lparr>operation = ReadBuffer 2, wait_list = [], completion = 6\<rparr> {} [5]"
  using copy_missing_wait_dependencies
    [where dst = "\<lparr>buffer = 1, cl_rows = 1, cl_cols = 1, read_events = [3], write_events = [4]\<rparr>"
       and src = "\<lparr>buffer = 1, cl_rows = 2, cl_cols = 2, read_events = [], write_events = []\<rparr>"
       and q = "\<lparr>enqueued = [], completed = {}, next_event = 5\<rparr>" and b = 2]
  by (simp add: copy_scalar_to_cl_def packed_copy_cl_to_vector_def pack_def kernel_call_def
      new_matrix_cl_def check_size_match_def Let_def enqueue_def wait_for_events_def
      clear_read_events_def clear_write_events_def add_write_event_def add_read_event_def
      starts_after_def)

end
